theory Spec2Isabelle
  imports Main "HOL-Library.Signed_Division"
begin

section \<open>JavaScript string and number primitives used by the sources\<close>

text \<open>
  Strings are modelled as \<open>string\<close> (lists of \<open>char\<close>); the model covers the ASCII
  range, which is all the schedule syntax and the path separator need.
  A JavaScript number that holds an integer is an \<open>int\<close>; \<open>NaN\<close>, the result of a
  failed \<open>parseInt\<close>, is \<open>None\<close>.
\<close>

text \<open>\<open>s.split(c)\<close> for a one-character separator: cut at every occurrence, keeping
  empty pieces; the empty string gives one empty piece.\<close>

fun split_on :: "char \<Rightarrow> string \<Rightarrow> string list" where
  "split_on c [] = [[]]"
| "split_on c (x # xs) =
     (if x = c then [] # split_on c xs
      else (case split_on c xs of
              [] \<Rightarrow> [[x]]
            | y # ys \<Rightarrow> (x # y) # ys))"

text \<open>\<open>s.includes(c)\<close> for a one-character needle.\<close>

definition includes_char :: "string \<Rightarrow> char \<Rightarrow> bool" where
  "includes_char s c = (c \<in> set s)"

text \<open>\<open>s.startsWith(p)\<close> and \<open>s.includes(p)\<close> for a string needle.\<close>

fun starts_with :: "string \<Rightarrow> string \<Rightarrow> bool" where
  "starts_with s [] = True"
| "starts_with [] (p # ps) = False"
| "starts_with (x # xs) (p # ps) = (x = p \<and> starts_with xs ps)"

fun includes_str :: "string \<Rightarrow> string \<Rightarrow> bool" where
  "includes_str [] p = (p = [])"
| "includes_str (x # xs) p = (starts_with (x # xs) p \<or> includes_str xs p)"

text \<open>The white space that \<open>parseInt\<close> skips (ASCII part of StrWhiteSpaceChar).\<close>

definition js_whitespace :: "char \<Rightarrow> bool" where
  "js_whitespace c = (c \<in> set [CHR '' '', CHR 0x09, CHR 0x0A, CHR 0x0B, CHR 0x0C, CHR 0x0D])"

definition dec_digit :: "char \<Rightarrow> int option" where
  "dec_digit = map_of
     [(CHR ''0'', 0), (CHR ''1'', 1), (CHR ''2'', 2), (CHR ''3'', 3), (CHR ''4'', 4),
      (CHR ''5'', 5), (CHR ''6'', 6), (CHR ''7'', 7), (CHR ''8'', 8), (CHR ''9'', 9)]"

definition hex_digit :: "char \<Rightarrow> int option" where
  "hex_digit c = (case dec_digit c of
      Some d \<Rightarrow> Some d
    | None \<Rightarrow> map_of
       [(CHR ''a'', 10), (CHR ''b'', 11), (CHR ''c'', 12), (CHR ''d'', 13), (CHR ''e'', 14),
        (CHR ''f'', 15), (CHR ''A'', 10), (CHR ''B'', 11), (CHR ''C'', 12), (CHR ''D'', 13),
        (CHR ''E'', 14), (CHR ''F'', 15)] c)"

text \<open>The longest prefix of digits, read in the given radix; \<open>None\<close> when there is no
  digit at all.\<close>

fun digits_value :: "(char \<Rightarrow> int option) \<Rightarrow> int \<Rightarrow> int option \<Rightarrow> string \<Rightarrow> int option" where
  "digits_value dig radix acc [] = acc"
| "digits_value dig radix acc (c # cs) =
     (case dig c of
        None \<Rightarrow> acc
      | Some d \<Rightarrow> digits_value dig radix
                   (Some ((case acc of None \<Rightarrow> 0 | Some a \<Rightarrow> a) * radix + d)) cs)"

text \<open>
  \<open>parseInt(s)\<close> with no radix argument: skip leading white space, read an optional
  sign, take radix 16 after a \<open>0x\<close>/\<open>0X\<close> prefix and radix 10 otherwise, read the longest
  run of digits, and give \<open>NaN\<close> when that run is empty.
\<close>

definition parseInt :: "string \<Rightarrow> int option" where
  "parseInt s =
     (let t = dropWhile js_whitespace s;
          sign = (if starts_with t ''-'' then - 1 else 1);
          u = (if starts_with t ''-'' \<or> starts_with t ''+'' then tl t else t);
          v = (if starts_with u ''0x'' \<or> starts_with u ''0X''
               then digits_value hex_digit 16 None (drop 2 u)
               else digits_value dec_digit 10 None u)
      in map_option (\<lambda>n. sign * n) v)"

text \<open>
  A number that is an integer or \<open>NaN\<close>, as \<open>parseInt\<close> gives it, with the operations
  the batch loop applies to it: \<open>+\<close>, \<open><\<close> and \<open>Math.min\<close> (each of them gives
  \<open>NaN\<close>, or false, when an operand is \<open>NaN\<close>) and the conversion of an index, which
  reads \<open>NaN\<close> as \<open>0\<close>.
\<close>

type_synonym js_number = "int option"

definition js_plus :: "js_number \<Rightarrow> js_number \<Rightarrow> js_number" where
  "js_plus a b = (case (a, b) of (Some x, Some y) \<Rightarrow> Some (x + y) | _ \<Rightarrow> None)"

definition js_less :: "js_number \<Rightarrow> js_number \<Rightarrow> bool" where
  "js_less a b = (case (a, b) of (Some x, Some y) \<Rightarrow> x < y | _ \<Rightarrow> False)"

definition js_min :: "js_number \<Rightarrow> js_number \<Rightarrow> js_number" where
  "js_min a b = (case (a, b) of (Some x, Some y) \<Rightarrow> Some (min x y) | _ \<Rightarrow> None)"

definition to_integer :: "js_number \<Rightarrow> int" where
  "to_integer a = (case a of Some x \<Rightarrow> x | None \<Rightarrow> 0)"

text \<open>\<open>parseInt(s, 10)\<close>: as above, with radix 10 whatever the prefix.\<close>

definition parseInt10 :: "string \<Rightarrow> int option" where
  "parseInt10 s =
     (let t = dropWhile js_whitespace s;
          sign = (if starts_with t ''-'' then - 1 else 1);
          u = (if starts_with t ''-'' \<or> starts_with t ''+'' then tl t else t)
      in map_option (\<lambda>n. sign * n) (digits_value dec_digit 10 None u))"

section \<open>The scheduler (class BackupScheduler)\<close>

text \<open>The calendar components that \<open>shouldRunBackup\<close> reads from \<open>new Date()\<close>:
  \<open>getMinutes\<close>, \<open>getHours\<close>, \<open>getDate\<close>, \<open>getMonth\<close> (0 to 11) and \<open>getDay\<close>.\<close>

record js_date =
  getMinutes :: int
  getHours :: int
  getDate :: int
  getMonth :: int
  getDay :: int

text \<open>
  \<open>matchCronField\<close>. The branches are tried in the order of the source; the step branch
  returns only when the text before the first \<open>/\<close> is \<open>*\<close> and falls through otherwise.
  \<open>currentValue % stepValue === 0\<close> is false for a \<open>NaN\<close> or zero step; \<open>%\<close> is the
  truncating remainder \<open>smod\<close>. The bounds \<open>min\<close> and \<open>max\<close> are parameters the body
  never reads.
\<close>

definition matchCronField :: "string \<Rightarrow> int \<Rightarrow> int \<Rightarrow> int \<Rightarrow> bool" where
  "matchCronField cronField currentValue mn mx =
     (if cronField = ''*'' then True
      else
        (case (if includes_char cronField CHR ''/''
               then (case split_on CHR ''/'' cronField of
                       rng # step # _ \<Rightarrow>
                         (if rng = ''*''
                          then Some (case parseInt step of
                                       None \<Rightarrow> False
                                     | Some stepValue \<Rightarrow>
                                         stepValue \<noteq> 0 \<and> currentValue smod stepValue = 0)
                          else None)
                     | _ \<Rightarrow> None)
               else None) of
           Some r \<Rightarrow> r
         | None \<Rightarrow>
             (if includes_char cronField CHR ''-''
              then (case map parseInt (split_on CHR ''-'' cronField) of
                      Some start # Some stop # _ \<Rightarrow> start \<le> currentValue \<and> currentValue \<le> stop
                    | _ \<Rightarrow> False)
              else if includes_char cronField CHR '',''
              then Some currentValue \<in> set (map parseInt (split_on CHR '','' cronField))
              else parseInt cronField = Some currentValue)))"

text \<open>\<open>shouldRunBackup\<close>, with the schedule expression and the current time as
  arguments. A wrong number of parts is reported on the console and gives \<open>false\<close>.\<close>

definition shouldRunBackup :: "string \<Rightarrow> js_date \<Rightarrow> bool" where
  "shouldRunBackup cronSchedule now =
     (let parts = split_on CHR '' '' cronSchedule in
      if length parts \<noteq> 5 then False
      else
        (let minute = parts ! 0; hour = parts ! 1; dayOfMonth = parts ! 2;
             month = parts ! 3; dayOfWeek = parts ! 4;
             currentMinute = getMinutes now;
             currentHour = getHours now;
             currentDay = getDate now;
             currentMonth = getMonth now + 1;
             currentDayOfWeek = getDay now;
             matchMinute = matchCronField minute currentMinute 0 59;
             matchHour = matchCronField hour currentHour 0 23;
             matchDay = matchCronField dayOfMonth currentDay 1 31;
             matchMonth = matchCronField month currentMonth 1 12;
             matchDayOfWeek = matchCronField dayOfWeek currentDayOfWeek 0 6
         in matchMinute \<and> matchHour \<and> matchDay \<and> matchMonth \<and> matchDayOfWeek))"

section \<open>Data of the backup (config.ts, supabase.ts, slack.ts)\<close>

record SupabaseConfig =
  url :: string
  anonKey :: string
  serviceKey :: "string option"
  bucketName :: string
  audioPath :: "string option"

record S3Config =
  s3_bucketName :: string
  accessKeyId :: string
  secretAccessKey :: string
  region :: string
  prefix :: "string option"

record BackupConfig =
  supabase :: SupabaseConfig
  s3 :: S3Config
  cronSchedule :: string
  tempDir :: string
  fileExtensions :: "string list"
  batchSize :: js_number
  slackWebhookUrl :: "string option"

text \<open>The batch size that \<open>loadConfig\<close> reads:
  \<open>parseInt(process.env.BATCH_SIZE || "5", 10)\<close>, where an unset or empty variable
  gives the default; the value is not checked.\<close>

definition loadConfig_batchSize :: "string option \<Rightarrow> js_number" where
  "loadConfig_batchSize BATCH_SIZE =
     parseInt10 (case BATCH_SIZE of
                   None \<Rightarrow> ''5''
                 | Some s \<Rightarrow> if s = [] then ''5'' else s)"

text \<open>The metadata object of a listed entry: its \<open>size\<close> key, when present, and its
  other keys.\<close>

record metadata =
  md_size :: "int option"
  md_other :: "(string \<times> string) list"

text \<open>An entry as the storage service lists it.\<close>

record item =
  item_name :: string
  item_id :: string
  item_created_at :: "string option"
  item_updated_at :: "string option"
  item_metadata :: "metadata option"

text \<open>Interface \<open>StorageFile\<close> (the fields \<open>id\<close> and \<open>size\<close> are \<open>fid\<close> and
  \<open>fsize\<close> here).\<close>

record StorageFile =
  name :: string
  fid :: string
  path :: string
  isFolder :: bool
  created_at :: string
  updated_at :: string
  fsize :: int
  file_metadata :: "metadata option"

text \<open>Interface \<open>BackupMetrics\<close>; times are milliseconds since the epoch.\<close>

record BackupMetrics =
  totalFiles :: nat
  successCount :: nat
  skipCount :: nat
  errorCount :: nat
  duration :: int
  totalSize :: int
  startTime :: int
  endTime :: int

text \<open>A thrown value: an instance of \<open>Error\<close> with its message, or anything else.\<close>

datatype js_error = Error string | Thrown string

type_synonym buffer = string

text \<open>What \<open>storage.list\<close> resolves to: \<open>{ data, error }\<close>.\<close>

record list_reply =
  reply_data :: "item list option"
  reply_error :: "string option"

text \<open>
  The calls to the outside and the console lines that tell the paths of the code apart,
  in the order they happen. \<open>LogBatch\<close> stands for the line
  \<open>Processing batch n (k files)\<close> and carries the batch itself.
\<close>

datatype event =
    MkDir string
  | LogCreatedDir string
  | ListPath string
  | LogListError string string
  | LogListThrow string js_error
  | LogFolder string
  | LogNoFiles
  | LogBatch "StorageFile list"
  | LogProcessing string
  | FileExists string
  | LogSkip string
  | LogBufferDownload
  | Download string
  | LogBufferUpload
  | UploadBuffer buffer string string
  | LogBufferFailed
  | LogTempDownload
  | WriteFile string buffer
  | LogTempUpload
  | UploadFile string string string
  | RmFile string
  | LogFileError string js_error
  | RmDir string
  | LogCleaned string
  | WarnCleanup js_error
  | Notify BackupMetrics
  | LogBackupFailed js_error

text \<open>
  The collaborators, as functions of a world \<open>'w\<close> that they may change: the file
  system (\<open>existsSync\<close>, \<open>mkdir\<close>, \<open>writeFile\<close>, \<open>rm\<close>, \<open>path.join\<close>), the source
  client (\<open>storage.list\<close>, \<open>downloadFile\<close>, \<open>getContentType\<close>), the destination client
  (\<open>fileExists\<close>, which catches its own errors, \<open>uploadBuffer\<close>, \<open>uploadFile\<close>), the
  notifier (which catches its own errors) and the clock. A call that can throw returns
  the thrown value. The last field is not a collaborator but the timing of the outside:
  \<open>pick n evs w\<close> tells which of \<open>n\<close> pending calls (counted in the order of their
  files, modulo \<open>n\<close>) completes next, after the events \<open>evs\<close> and in the world
  \<open>w\<close>; every order in which the calls can complete is that of some \<open>pick\<close>.
\<close>

record 'w env =
  existsSync :: "string \<Rightarrow> 'w \<Rightarrow> bool"
  mkdir :: "string \<Rightarrow> 'w \<Rightarrow> js_error option \<times> 'w"
  storage_list :: "string \<Rightarrow> 'w \<Rightarrow> (js_error + list_reply) \<times> 'w"
  downloadFile :: "string \<Rightarrow> 'w \<Rightarrow> (js_error + buffer) \<times> 'w"
  getContentType :: "string \<Rightarrow> string"
  fileExists :: "string \<Rightarrow> 'w \<Rightarrow> bool \<times> 'w"
  uploadBuffer :: "buffer \<Rightarrow> string \<Rightarrow> string \<Rightarrow> 'w \<Rightarrow> js_error option \<times> 'w"
  uploadFile :: "string \<Rightarrow> string \<Rightarrow> string \<Rightarrow> 'w \<Rightarrow> js_error option \<times> 'w"
  writeFile :: "string \<Rightarrow> buffer \<Rightarrow> 'w \<Rightarrow> js_error option \<times> 'w"
  rm :: "string \<Rightarrow> bool \<Rightarrow> 'w \<Rightarrow> js_error option \<times> 'w"
  path_join :: "string \<Rightarrow> string \<Rightarrow> string"
  sendBackupNotification :: "BackupMetrics \<Rightarrow> 'w \<Rightarrow> 'w"
  date_now :: "'w \<Rightarrow> int"
  pick :: "nat \<Rightarrow> event list \<Rightarrow> 'w \<Rightarrow> nat"

section \<open>Enumeration (SupabaseStorage.listAllFiles)\<close>

text \<open>\<open>Object.keys(item.metadata).length\<close>.\<close>

definition keys_count :: "metadata \<Rightarrow> nat" where
  "keys_count md = (case md_size md of None \<Rightarrow> 0 | Some _ \<Rightarrow> 1) + length (md_other md)"

text \<open>\<open>!item.metadata || Object.keys(item.metadata).length === 0 || !item.metadata.size\<close>:
  a missing size and a size of zero are both falsy.\<close>

definition isFolderItem :: "item \<Rightarrow> bool" where
  "isFolderItem it =
     (case item_metadata it of
        None \<Rightarrow> True
      | Some md \<Rightarrow>
          keys_count md = 0 \<or> (case md_size md of None \<Rightarrow> True | Some n \<Rightarrow> n = 0))"

definition fullPath :: "string \<Rightarrow> item \<Rightarrow> string" where
  "fullPath currentPath it =
     (if currentPath \<noteq> [] then currentPath @ ''/'' @ item_name it else item_name it)"

definition toStorageFile :: "string \<Rightarrow> item \<Rightarrow> StorageFile" where
  "toStorageFile currentPath it =
     \<lparr> name = item_name it,
       fid = item_id it,
       path = fullPath currentPath it,
       isFolder = False,
       created_at = (case item_created_at it of None \<Rightarrow> [] | Some t \<Rightarrow> t),
       updated_at = (case item_updated_at it of None \<Rightarrow> [] | Some t \<Rightarrow> t),
       fsize = (case item_metadata it of
                  None \<Rightarrow> 0
                | Some md \<Rightarrow> (case md_size md of None \<Rightarrow> 0 | Some n \<Rightarrow> n)),
       file_metadata = item_metadata it \<rparr>"

text \<open>The state of the \<open>while\<close> loop of \<open>listAllFiles\<close>.\<close>

record 'w scan =
  foldersToProcess :: "string list"
  processedFolders :: "string set"
  allFiles :: "StorageFile list"
  scan_world :: "'w"
  scan_log :: "event list"

text \<open>The \<open>for (const item of data)\<close> loop.\<close>

fun scanItems :: "string \<Rightarrow> item list \<Rightarrow> 'w scan \<Rightarrow> 'w scan" where
  "scanItems currentPath [] st = st"
| "scanItems currentPath (it # data) st =
     scanItems currentPath data
       (if isFolderItem it
        then st\<lparr> foldersToProcess := foldersToProcess st @ [fullPath currentPath it],
                 scan_log := scan_log st @ [LogFolder (fullPath currentPath it)] \<rparr>
        else st\<lparr> allFiles := allFiles st @ [toStorageFile currentPath it] \<rparr>)"

text \<open>One turn of the \<open>while\<close> loop, for a non-empty queue.\<close>

definition listStep :: "'w env \<Rightarrow> 'w scan \<Rightarrow> 'w scan" where
  "listStep e st =
     (case foldersToProcess st of
        [] \<Rightarrow> st
      | currentPath # rest \<Rightarrow>
          if currentPath \<in> processedFolders st
          then st\<lparr> foldersToProcess := rest \<rparr>
          else
            (let st1 = st\<lparr> foldersToProcess := rest,
                           processedFolders := insert currentPath (processedFolders st) \<rparr>;
                 (r, w') = storage_list e currentPath (scan_world st);
                 st2 = st1\<lparr> scan_world := w',
                            scan_log := scan_log st @ [ListPath currentPath] \<rparr>
             in case r of
                  Inl ex \<Rightarrow> st2\<lparr> scan_log := scan_log st2 @ [LogListThrow currentPath ex] \<rparr>
                | Inr reply \<Rightarrow>
                    (case reply_error reply of
                       Some msg \<Rightarrow>
                         st2\<lparr> scan_log := scan_log st2 @ [LogListError currentPath msg] \<rparr>
                     | None \<Rightarrow>
                         (case reply_data reply of
                            None \<Rightarrow> st2
                          | Some data \<Rightarrow>
                              if length data = 0 then st2
                              else scanItems currentPath data st2))))"

text \<open>The loop runs while the queue is not empty; a source whose folders never end
  keeps it running, which is the value \<open>None\<close>.\<close>

partial_function (option) listLoop :: "'w env \<Rightarrow> 'w scan \<Rightarrow> 'w scan option" where
  "listLoop e st =
     (if length (foldersToProcess st) > 0 then listLoop e (listStep e st) else Some st)"

text \<open>\<open>listAllFiles\<close>: the files found, the world after the scan and what happened.
  The summary lines printed after the loop are left out.\<close>

definition listAllFiles :: "'w env \<Rightarrow> 'w \<Rightarrow> (StorageFile list \<times> 'w \<times> event list) option" where
  "listAllFiles e w =
     map_option (\<lambda>st. (allFiles st, scan_world st, scan_log st))
       (listLoop e \<lparr> foldersToProcess = [[]], processedFolders = {}, allFiles = [],
                     scan_world = w, scan_log = [] \<rparr>)"

section \<open>Transfer of one file (StorageBackup.backupFile)\<close>

text \<open>\<open>file.path.replace(/\//g, "_")\<close>.\<close>

definition flattenPath :: "string \<Rightarrow> string" where
  "flattenPath p = map (\<lambda>c. if c = CHR ''/'' then CHR ''_'' else c) p"

text \<open>The \<open>try\<close> block of method 1: download into a buffer, upload the buffer. The result
  is the value thrown inside the block, if any.\<close>

definition bufferMethod :: "'w env \<Rightarrow> StorageFile \<Rightarrow> 'w \<Rightarrow> js_error option \<times> 'w \<times> event list" where
  "bufferMethod e file w =
     (let (d, w1) = downloadFile e (path file) w in
      case d of
        Inl ex \<Rightarrow> (Some ex, w1, [LogBufferDownload, Download (path file)])
      | Inr buf \<Rightarrow>
          (let contentType = getContentType e (name file);
               (u, w2) = uploadBuffer e buf (path file) contentType w1
           in (u, w2, [LogBufferDownload, Download (path file), LogBufferUpload,
                       UploadBuffer buf (path file) contentType])))"

text \<open>
  Method 2: download, write the temp file, upload it, remove it. The removal after the
  upload is inside the \<open>try\<close>, so when it throws the \<open>catch\<close> removes once more and
  rethrows; the removal inside the \<open>catch\<close> swallows its own error.
\<close>

definition tempFileMethod ::
  "'w env \<Rightarrow> BackupConfig \<Rightarrow> StorageFile \<Rightarrow> 'w \<Rightarrow> js_error option \<times> 'w \<times> event list" where
  "tempFileMethod e config file w =
     (let tempFileName = flattenPath (path file);
          tempFilePath = path_join e (tempDir config) tempFileName;
          (d, w1) = downloadFile e (path file) w
      in case d of
           Inl ex \<Rightarrow>
             (let (_, w2) = rm e tempFilePath False w1
              in (Some ex, w2, [LogTempDownload, Download (path file), RmFile tempFilePath]))
         | Inr buf \<Rightarrow>
             (let (wr, w2) = writeFile e tempFilePath buf w1 in
              case wr of
                Some ex \<Rightarrow>
                  (let (_, w3) = rm e tempFilePath False w2
                   in (Some ex, w3, [LogTempDownload, Download (path file),
                                     WriteFile tempFilePath buf, RmFile tempFilePath]))
              | None \<Rightarrow>
                  (let contentType = getContentType e (name file);
                       (u, w3) = uploadFile e tempFilePath (path file) contentType w2;
                       evs = [LogTempDownload, Download (path file), WriteFile tempFilePath buf,
                              LogTempUpload, UploadFile tempFilePath (path file) contentType]
                   in case u of
                        Some ex \<Rightarrow>
                          (let (_, w4) = rm e tempFilePath False w3
                           in (Some ex, w4, evs @ [RmFile tempFilePath]))
                      | None \<Rightarrow>
                          (let (r, w4) = rm e tempFilePath False w3 in
                           case r of
                             None \<Rightarrow> (None, w4, evs @ [RmFile tempFilePath])
                           | Some ex \<Rightarrow>
                               (let (_, w5) = rm e tempFilePath False w4
                                in (Some ex, w5,
                                    evs @ [RmFile tempFilePath, RmFile tempFilePath]))))))"

text \<open>
  \<open>backupFile\<close>, for a transfer whose steps follow one another with nothing else
  running in between: \<open>None\<close> when the promise resolves, the thrown value otherwise.
  \<open>file.size && file.size < 100 * 1024 * 1024\<close> is false for a size of zero.
\<close>

definition backupFile ::
  "'w env \<Rightarrow> BackupConfig \<Rightarrow> StorageFile \<Rightarrow> 'w \<Rightarrow> js_error option \<times> 'w \<times> event list" where
  "backupFile e config file w =
     (let (ex, w1) = fileExists e (path file) w;
          pre = [LogProcessing (path file), FileExists (path file)]
      in if ex
         then (Some (Error ''File already exists''), w1, pre @ [LogSkip (path file)])
         else if fsize file \<noteq> 0 \<and> fsize file < 100 * 1024 * 1024
         then (case bufferMethod e file w1 of
                 (None, w2, evs) \<Rightarrow> (None, w2, pre @ evs)
               | (Some _, w2, evs) \<Rightarrow>
                   (let (r, w3, evs') = tempFileMethod e config file w2
                    in (r, w3, pre @ evs @ [LogBufferFailed] @ evs')))
         else (let (r, w2, evs) = tempFileMethod e config file w1
               in (r, w2, pre @ evs)))"

section \<open>The run (StorageBackup.backup)\<close>

text \<open>The world, the events so far and the three counters of a run.\<close>

record 'w run =
  run_world :: "'w"
  run_log :: "event list"
  run_success :: nat
  run_skip :: nat
  run_error :: nat

text \<open>The counters at the start of the batches: \<open>successCount\<close>, \<open>skipCount\<close> and
  \<open>errorCount\<close> are zero.\<close>

definition new_run :: "'w \<Rightarrow> 'w run" where
  "new_run w = \<lparr> run_world = w, run_log = [], run_success = 0, run_skip = 0, run_error = 0 \<rparr>"

text \<open>The number of files counted so far.\<close>

definition counted :: "'w run \<Rightarrow> nat" where
  "counted st = run_success st + run_skip st + run_error st"

text \<open>\<open>error instanceof Error && error.message.includes("already exists")\<close>.\<close>

definition isAlreadyExists :: "js_error \<Rightarrow> bool" where
  "isAlreadyExists ex =
     (case ex of Error message \<Rightarrow> includes_str message ''already exists'' | Thrown _ \<Rightarrow> False)"

text \<open>The callback mapped over a batch, for a transfer that runs with nothing else in
  between: the transfer and the counter it bumps.\<close>

definition backupTask :: "'w env \<Rightarrow> BackupConfig \<Rightarrow> StorageFile \<Rightarrow> 'w run \<Rightarrow> 'w run" where
  "backupTask e config file st =
     (let (r, w', evs) = backupFile e config file (run_world st);
          st1 = st\<lparr> run_world := w', run_log := run_log st @ evs \<rparr>
      in case r of
           None \<Rightarrow> st1\<lparr> run_success := run_success st + 1 \<rparr>
         | Some ex \<Rightarrow>
             if isAlreadyExists ex
             then st1\<lparr> run_skip := run_skip st + 1 \<rparr>
             else st1\<lparr> run_error := run_error st + 1,
                       run_log := run_log st1 @ [LogFileError (path file) ex] \<rparr>)"

subsection \<open>The transfers of a batch, cut at their \<open>await\<close>s\<close>

text \<open>
  \<open>batch.map(async (file) => ...)\<close> starts every callback of the batch, and each runs
  until its first \<open>await\<close>, the existence probe; after that the transfers of the batch
  go on in turns, each from one \<open>await\<close> to its next, in the order in which the calls
  they wait for complete. A transfer is therefore a state: the call it is waiting for,
  or the outcome of \<open>backupFile\<close> once its promise has settled.
\<close>

datatype await_point =
    AwaitExists
  | AwaitBufferDownload
  | AwaitBufferUpload buffer
  | AwaitTempDownload
  | AwaitWriteFile buffer
  | AwaitUploadFile
  | AwaitRm
  | AwaitRmCatch js_error
  | Settled "js_error option"

definition tempFilePath :: "'w env \<Rightarrow> BackupConfig \<Rightarrow> StorageFile \<Rightarrow> string" where
  "tempFilePath e config file = path_join e (tempDir config) (flattenPath (path file))"

text \<open>
  One turn of \<open>backupFile\<close>: the awaited call completes, with its effect on the world,
  and the code runs on to the next \<open>await\<close> or to the end. The pieces are those of
  \<open>backupFile\<close> above, in the same order.
\<close>

fun resumeFile ::
  "'w env \<Rightarrow> BackupConfig \<Rightarrow> StorageFile \<Rightarrow> await_point \<Rightarrow> 'w
     \<Rightarrow> await_point \<times> 'w \<times> event list" where
  "resumeFile e config file AwaitExists w =
     (let (ex, w1) = fileExists e (path file) w in
      if ex
      then (Settled (Some (Error ''File already exists'')), w1,
            [FileExists (path file), LogSkip (path file)])
      else if fsize file \<noteq> 0 \<and> fsize file < 100 * 1024 * 1024
      then (AwaitBufferDownload, w1, [FileExists (path file), LogBufferDownload])
      else (AwaitTempDownload, w1, [FileExists (path file), LogTempDownload]))"
| "resumeFile e config file AwaitBufferDownload w =
     (let (d, w1) = downloadFile e (path file) w in
      case d of
        Inl ex \<Rightarrow> (AwaitTempDownload, w1, [Download (path file), LogBufferFailed, LogTempDownload])
      | Inr buf \<Rightarrow> (AwaitBufferUpload buf, w1, [Download (path file), LogBufferUpload]))"
| "resumeFile e config file (AwaitBufferUpload buf) w =
     (let contentType = getContentType e (name file);
          (u, w1) = uploadBuffer e buf (path file) contentType w
      in case u of
           None \<Rightarrow> (Settled None, w1, [UploadBuffer buf (path file) contentType])
         | Some ex \<Rightarrow> (AwaitTempDownload, w1,
                        [UploadBuffer buf (path file) contentType, LogBufferFailed,
                         LogTempDownload]))"
| "resumeFile e config file AwaitTempDownload w =
     (let (d, w1) = downloadFile e (path file) w in
      case d of
        Inl ex \<Rightarrow> (AwaitRmCatch ex, w1, [Download (path file)])
      | Inr buf \<Rightarrow> (AwaitWriteFile buf, w1, [Download (path file)]))"
| "resumeFile e config file (AwaitWriteFile buf) w =
     (let (wr, w1) = writeFile e (tempFilePath e config file) buf w in
      case wr of
        Some ex \<Rightarrow> (AwaitRmCatch ex, w1, [WriteFile (tempFilePath e config file) buf])
      | None \<Rightarrow> (AwaitUploadFile, w1,
                   [WriteFile (tempFilePath e config file) buf, LogTempUpload]))"
| "resumeFile e config file AwaitUploadFile w =
     (let contentType = getContentType e (name file);
          (u, w1) = uploadFile e (tempFilePath e config file) (path file) contentType w
      in case u of
           Some ex \<Rightarrow> (AwaitRmCatch ex, w1,
                        [UploadFile (tempFilePath e config file) (path file) contentType])
         | None \<Rightarrow> (AwaitRm, w1,
                      [UploadFile (tempFilePath e config file) (path file) contentType]))"
| "resumeFile e config file AwaitRm w =
     (let (r, w1) = rm e (tempFilePath e config file) False w in
      case r of
        None \<Rightarrow> (Settled None, w1, [RmFile (tempFilePath e config file)])
      | Some ex \<Rightarrow> (AwaitRmCatch ex, w1, [RmFile (tempFilePath e config file)]))"
| "resumeFile e config file (AwaitRmCatch ex) w =
     (let (_, w1) = rm e (tempFilePath e config file) False w in
      (Settled (Some ex), w1, [RmFile (tempFilePath e config file)]))"
| "resumeFile e config file (Settled r) w = (Settled r, w, [])"

text \<open>What remains of the callback once \<open>backupFile\<close> has settled: the counter.\<close>

definition settleCallback :: "StorageFile \<Rightarrow> js_error option \<Rightarrow> 'w run \<Rightarrow> 'w run" where
  "settleCallback file r st =
     (case r of
        None \<Rightarrow> st\<lparr> run_success := run_success st + 1 \<rparr>
      | Some ex \<Rightarrow>
          if isAlreadyExists ex
          then st\<lparr> run_skip := run_skip st + 1 \<rparr>
          else st\<lparr> run_error := run_error st + 1,
                   run_log := run_log st @ [LogFileError (path file) ex] \<rparr>)"

fun is_settled :: "await_point \<Rightarrow> bool" where
  "is_settled (Settled _) = True"
| "is_settled _ = False"

text \<open>The positions, from \<open>i\<close> on, of the transfers that have not settled.\<close>

fun pendingFrom :: "nat \<Rightarrow> (StorageFile \<times> await_point) list \<Rightarrow> nat list" where
  "pendingFrom i [] = []"
| "pendingFrom i (t # ts) =
     (if is_settled (snd t) then pendingFrom (Suc i) ts else i # pendingFrom (Suc i) ts)"

text \<open>The transfer whose call completes next, and its turn.\<close>

definition nextTask :: "'w env \<Rightarrow> (StorageFile \<times> await_point) list \<Rightarrow> 'w run \<Rightarrow> nat" where
  "nextTask e tasks st =
     pendingFrom 0 tasks
       ! (pick e (length (pendingFrom 0 tasks)) (run_log st) (run_world st)
            mod length (pendingFrom 0 tasks))"

definition resumeTask ::
  "'w env \<Rightarrow> BackupConfig \<Rightarrow> nat \<Rightarrow> (StorageFile \<times> await_point) list \<Rightarrow> 'w run
     \<Rightarrow> (StorageFile \<times> await_point) list \<times> 'w run" where
  "resumeTask e config i tasks st =
     (let (file, a) = tasks ! i;
          (a', w', evs) = resumeFile e config file a (run_world st);
          st1 = st\<lparr> run_world := w', run_log := run_log st @ evs \<rparr>
      in (tasks[i := (file, a')],
          (case a' of Settled r \<Rightarrow> settleCallback file r st1 | _ \<Rightarrow> st1)))"

text \<open>The number of turns a transfer can still take.\<close>

fun turns_left :: "await_point \<Rightarrow> nat" where
  "turns_left AwaitExists = 8"
| "turns_left AwaitBufferDownload = 7"
| "turns_left (AwaitBufferUpload _) = 6"
| "turns_left AwaitTempDownload = 5"
| "turns_left (AwaitWriteFile _) = 4"
| "turns_left AwaitUploadFile = 3"
| "turns_left AwaitRm = 2"
| "turns_left (AwaitRmCatch _) = 1"
| "turns_left (Settled _) = 0"

text \<open>
  \<open>await Promise.all(promises)\<close>: the transfers take their turns, in the order the
  world gives, until every one of them has settled.
\<close>

function settleAll ::
  "'w env \<Rightarrow> BackupConfig \<Rightarrow> (StorageFile \<times> await_point) list \<Rightarrow> 'w run \<Rightarrow> 'w run" where
  "settleAll e config tasks st =
     (if pendingFrom 0 tasks = [] then st
      else settleAll e config
             (fst (resumeTask e config (nextTask e tasks st) tasks st))
             (snd (resumeTask e config (nextTask e tasks st) tasks st)))"
  by pat_completeness auto

text \<open>
  One batch: the line that announces it, the start of every callback (each prints its
  \<open>Processing\<close> line and issues its probe), then the turns. The next batch starts after
  all transfers of this one have settled. A call of a collaborator takes effect in one
  piece, at the turn in which it completes.
\<close>

definition processBatch :: "'w env \<Rightarrow> BackupConfig \<Rightarrow> StorageFile list \<Rightarrow> 'w run \<Rightarrow> 'w run" where
  "processBatch e config batch st =
     settleAll e config (map (\<lambda>file. (file, AwaitExists)) batch)
       (st\<lparr> run_log := run_log st @ LogBatch batch # map (\<lambda>file. LogProcessing (path file)) batch \<rparr>)"

text \<open>\<open>xs.slice(start, stop)\<close>: an index that is \<open>NaN\<close> counts as \<open>0\<close>, a negative
  index counts from the end, and both are clamped to the list.\<close>

definition js_slice :: "'a list \<Rightarrow> js_number \<Rightarrow> js_number \<Rightarrow> 'a list" where
  "js_slice xs start stop =
     (let n = int (length xs);
          s = (if to_integer start < 0 then max (n + to_integer start) 0
               else min (to_integer start) n);
          t = (if to_integer stop < 0 then max (n + to_integer stop) 0
               else min (to_integer stop) n)
      in take (nat (t - s)) (drop (nat s) xs))"

text \<open>
  \<open>for (let i = 0; i < allFiles.length; i += this.config.batchSize)\<close>, with the batch
  \<open>allFiles.slice(i, Math.min(i + this.config.batchSize, allFiles.length))\<close>. With a
  batch size that is an integer and not positive the loop never ends, which is the
  value \<open>None\<close>; with a batch size \<open>NaN\<close> (an unparsable \<open>BATCH_SIZE\<close>) it ends after
  one empty batch.
\<close>

partial_function (option) batchLoop ::
  "'w env \<Rightarrow> BackupConfig \<Rightarrow> StorageFile list \<Rightarrow> js_number \<Rightarrow> 'w run \<Rightarrow> 'w run option" where
  "batchLoop e config files i st =
     (if js_less i (Some (int (length files)))
      then batchLoop e config files (js_plus i (batchSize config))
             (processBatch e config
                (js_slice files i
                   (js_min (js_plus i (batchSize config)) (Some (int (length files))))) st)
      else Some st)"

definition ensureTempDir :: "'w env \<Rightarrow> BackupConfig \<Rightarrow> 'w \<Rightarrow> js_error option \<times> 'w \<times> event list" where
  "ensureTempDir e config w =
     (if \<not> existsSync e (tempDir config) w
      then (case mkdir e (tempDir config) w of
              (Some ex, w') \<Rightarrow> (Some ex, w', [MkDir (tempDir config)])
            | (None, w') \<Rightarrow> (None, w', [MkDir (tempDir config), LogCreatedDir (tempDir config)]))
      else (None, w, []))"

text \<open>\<open>cleanupTempDir\<close>: a recursive, forced removal whose error is caught and printed
  as a warning.\<close>

definition cleanupTempDir :: "'w env \<Rightarrow> BackupConfig \<Rightarrow> 'w \<Rightarrow> 'w \<times> event list" where
  "cleanupTempDir e config w =
     (case rm e (tempDir config) True w of
        (None, w') \<Rightarrow> (w', [RmDir (tempDir config), LogCleaned (tempDir config)])
      | (Some ex, w') \<Rightarrow> (w', [RmDir (tempDir config), WarnCleanup ex]))"

text \<open>
  \<open>backup\<close>. The result is \<open>None\<close> when a loop of the run never ends; otherwise the
  value thrown out of \<open>backup\<close>, if any, the world after the run and what happened.
  The metrics are built and handed to the notifier on the last path only.
  \<open>Math.round((endTime - startTime) / 1000)\<close> rounds half up.
\<close>

definition backup ::
  "'w env \<Rightarrow> BackupConfig \<Rightarrow> 'w \<Rightarrow> (js_error option \<times> 'w \<times> event list) option" where
  "backup e config w =
     (let startT = date_now e w in
      case ensureTempDir e config w of
        (Some ex, w1, ev1) \<Rightarrow> Some (Some ex, w1, ev1 @ [LogBackupFailed ex])
      | (None, w1, ev1) \<Rightarrow>
          (case listAllFiles e w1 of
             None \<Rightarrow> None
           | Some (files, w2, ev2) \<Rightarrow>
               if length files = 0
               then Some (None, w2, ev1 @ ev2 @ [LogNoFiles])
               else
                 (let total = sum_list (map fsize files) in
                  case batchLoop e config files (Some 0) (new_run w2) of
                    None \<Rightarrow> None
                  | Some st \<Rightarrow>
                      (let (w3, ev3) = cleanupTempDir e config (run_world st);
                           endT = date_now e w3;
                           metrics = \<lparr> totalFiles = length files,
                                       successCount = run_success st,
                                       skipCount = run_skip st,
                                       errorCount = run_error st,
                                       duration = (endT - startT + 500) div 1000,
                                       totalSize = total,
                                       startTime = startT,
                                       endTime = endT \<rparr>;
                           w4 = sendBackupNotification e metrics w3
                       in Some (None, w4,
                                ev1 @ ev2 @ run_log st @ ev3 @ [Notify metrics])))))"

text \<open>
  The constructor of \<open>StorageBackup\<close> builds the clients from \<open>config.supabase\<close>,
  \<open>config.s3\<close> and \<open>config.slackWebhookUrl\<close>; \<open>connect\<close> stands for that construction.
\<close>

definition StorageBackup_backup ::
  "(SupabaseConfig \<Rightarrow> S3Config \<Rightarrow> string option \<Rightarrow> 'w env) \<Rightarrow> BackupConfig \<Rightarrow> 'w
     \<Rightarrow> (js_error option \<times> 'w \<times> event list) option" where
  "StorageBackup_backup connect config w =
     backup (connect (supabase config) (s3 config) (slackWebhookUrl config)) config w"

section \<open>Kinds of events\<close>

text \<open>The events of the enumeration.\<close>

fun is_scan_event :: "event \<Rightarrow> bool" where
  "is_scan_event (ListPath _) = True"
| "is_scan_event (LogListError _ _) = True"
| "is_scan_event (LogListThrow _ _) = True"
| "is_scan_event (LogFolder _) = True"
| "is_scan_event _ = False"

text \<open>The events that can come before the first batch: the creation of the staging
  directory, the enumeration, and the line \<open>No files found to backup\<close>.\<close>

fun is_prelude_event :: "event \<Rightarrow> bool" where
  "is_prelude_event (MkDir _) = True"
| "is_prelude_event (LogCreatedDir _) = True"
| "is_prelude_event LogNoFiles = True"
| "is_prelude_event ev = is_scan_event ev"

text \<open>The batches announced in a log, in order.\<close>

fun logged_batches :: "event list \<Rightarrow> StorageFile list list" where
  "logged_batches [] = []"
| "logged_batches (LogBatch b # evs) = b # logged_batches evs"
| "logged_batches (_ # evs) = logged_batches evs"

section \<open>The specification's notions, for comparison with the code\<close>

text \<open>The fields of a schedule expression as the specification words them: the maximal
  runs of characters that are not white space.\<close>

fun ws_fields_from :: "string \<Rightarrow> string \<Rightarrow> string list" where
  "ws_fields_from cur [] = (if cur = [] then [] else [cur])"
| "ws_fields_from cur (c # cs) =
     (if js_whitespace c
      then (if cur = [] then ws_fields_from [] cs else cur # ws_fields_from [] cs)
      else ws_fields_from (cur @ [c]) cs)"

definition ws_fields :: "string \<Rightarrow> string list" where
  "ws_fields s = ws_fields_from [] s"

text \<open>The partition the specification describes: contiguous batches of \<open>k\<close> elements,
  the last one possibly smaller.\<close>

fun contiguous_batches :: "nat \<Rightarrow> 'a list \<Rightarrow> 'a list list" where
  "contiguous_batches k xs =
     (if k = 0 \<or> xs = [] then [] else take k xs # contiguous_batches k (drop k xs))"

section \<open>A small in-memory world for concrete runs\<close>

record fake_world =
  fw_dest :: "string list"
  fw_tmp :: "string list"
  fw_dir :: bool
  fw_clock :: int

text \<open>A bucket given as a table from paths to listings, a destination that holds the
  keys \<open>fw_dest\<close>, the staging files \<open>fw_tmp\<close>, and the errors that \<open>mkdir\<close>,
  \<open>uploadBuffer\<close>, \<open>uploadFile\<close> and the recursive \<open>rm\<close> throw, if any. The upload
  of a staging file that is not there throws \<open>ENOENT\<close>. Of the pending calls the first
  completes first.\<close>

definition fake_env ::
  "(string \<times> item list) list \<Rightarrow> js_error option \<Rightarrow> js_error option \<Rightarrow> js_error option
     \<Rightarrow> js_error option \<Rightarrow> fake_world env" where
  "fake_env tree mkdirErr bufErr streamErr rmErr =
     \<lparr> existsSync = (\<lambda>p w. fw_dir w),
       mkdir = (\<lambda>p w. case mkdirErr of
                         Some ex \<Rightarrow> (Some ex, w)
                       | None \<Rightarrow> (None, w\<lparr> fw_dir := True \<rparr>)),
       storage_list = (\<lambda>p w. (Inr \<lparr> reply_data = map_of tree p, reply_error = None \<rparr>, w)),
       downloadFile = (\<lambda>p w. (Inr ''bytes'', w)),
       getContentType = (\<lambda>n. ''application/octet-stream''),
       fileExists = (\<lambda>p w. (p \<in> set (fw_dest w), w)),
       uploadBuffer = (\<lambda>b p c w. case bufErr of
                                    Some ex \<Rightarrow> (Some ex, w)
                                  | None \<Rightarrow> (None, w\<lparr> fw_dest := p # fw_dest w \<rparr>)),
       uploadFile = (\<lambda>t p c w. case streamErr of
                                  Some ex \<Rightarrow> (Some ex, w)
                                | None \<Rightarrow>
                                    if t \<in> set (fw_tmp w)
                                    then (None, w\<lparr> fw_dest := p # fw_dest w \<rparr>)
                                    else (Some (Error ''ENOENT''), w)),
       writeFile = (\<lambda>t b w. (None, w\<lparr> fw_tmp := t # fw_tmp w \<rparr>)),
       rm = (\<lambda>t recursive w.
               if recursive
               then (case rmErr of
                       Some ex \<Rightarrow> (Some ex, w)
                     | None \<Rightarrow> (None, w\<lparr> fw_dir := False, fw_tmp := [] \<rparr>))
               else (None, w\<lparr> fw_tmp := removeAll t (fw_tmp w) \<rparr>)),
       path_join = (\<lambda>d n. d @ ''/'' @ n),
       sendBackupNotification = (\<lambda>m w. w),
       date_now = fw_clock,
       pick = (\<lambda>n evs w. 0) \<rparr>"


definition second_first :: "nat \<Rightarrow> event list \<Rightarrow> fake_world \<Rightarrow> nat" where
  "second_first n evs w = 1"

definition fresh_world :: fake_world where
  "fresh_world = \<lparr> fw_dest = [], fw_tmp = [], fw_dir = False, fw_clock = 0 \<rparr>"

definition test_config :: BackupConfig where
  "test_config =
     \<lparr> supabase = \<lparr> url = ''u'', anonKey = ''k'', serviceKey = None, bucketName = ''audio'',
                    audioPath = None \<rparr>,
       s3 = \<lparr> s3_bucketName = ''b'', accessKeyId = ''i'', secretAccessKey = ''s'',
              region = ''us-east-1'', prefix = None \<rparr>,
       cronSchedule = ''0 2 * * *'',
       tempDir = ''/tmp/x'',
       fileExtensions = [''.mp3''],
       batchSize = Some 2,
       slackWebhookUrl = None \<rparr>"

definition folder_item :: "string \<Rightarrow> item" where
  "folder_item n =
     \<lparr> item_name = n, item_id = [], item_created_at = None, item_updated_at = None,
       item_metadata = None \<rparr>"

definition file_item :: "string \<Rightarrow> int \<Rightarrow> item" where
  "file_item n sz =
     \<lparr> item_name = n, item_id = n, item_created_at = Some ''t0'', item_updated_at = Some ''t1'',
       item_metadata = Some \<lparr> md_size = Some sz, md_other = [(''mimetype'', ''audio/mpeg'')] \<rparr> \<rparr>"

definition test_file :: "string \<Rightarrow> int \<Rightarrow> StorageFile" where
  "test_file p sz = toStorageFile [] (file_item p sz)"


text \<open>A bucket with three files at the root.\<close>

definition three_files :: "(string \<times> item list) list" where
  "three_files = [([], [file_item ''a'' 1, file_item ''b'' 2, file_item ''c'' 3])]"

text \<open>The tree \<open>{a/, a/b.mp3, c.wav}\<close>.\<close>

definition example_tree :: "(string \<times> item list) list" where
  "example_tree =
     [([], [folder_item ''a'', file_item ''c.wav'' 20]),
      (''a'', [file_item ''b.mp3'' 10])]"


section \<open>Auxiliary facts\<close>

subsection \<open>Every batch settles\<close>

lemma resumeFile_turns:
  "\<not> is_settled a \<Longrightarrow> turns_left (fst (resumeFile e config file a w)) < turns_left a"
  by (cases a) (auto simp: Let_def split: prod.splits sum.splits option.splits)

lemma pendingFrom_pending:
  "i \<in> set (pendingFrom k tasks) \<Longrightarrow>
     k \<le> i \<and> i - k < length tasks \<and> \<not> is_settled (snd (tasks ! (i - k)))"
proof (induction tasks arbitrary: k)
  case Nil
  then show ?case by simp
next
  case (Cons t ts)
  show ?case
  proof (cases "i \<in> set (pendingFrom (Suc k) ts)")
    case True
    from Cons.IH [OF this] show ?thesis by (auto simp: Suc_diff_le nth_Cons')
  next
    case False
    with Cons.prems have "i = k \<and> \<not> is_settled (snd t)" by (auto split: if_splits)
    then show ?thesis by simp
  qed
qed

lemma nextTask_pending:
  assumes "pendingFrom 0 tasks \<noteq> []"
  shows "nextTask e tasks st < length tasks \<and> \<not> is_settled (snd (tasks ! nextTask e tasks st))"
proof -
  have "nextTask e tasks st \<in> set (pendingFrom 0 tasks)"
    using assms by (simp add: nextTask_def)
  from pendingFrom_pending [OF this] show ?thesis by simp
qed

lemma resumeTask_turns:
  assumes "i < length tasks" and "\<not> is_settled (snd (tasks ! i))"
  shows "sum_list (map (turns_left \<circ> snd) (fst (resumeTask e config i tasks st)))
           < sum_list (map (turns_left \<circ> snd) tasks)"
proof -
  obtain f a where t: "tasks ! i = (f, a)" by (cases "tasks ! i")
  obtain a' w' evs where r: "resumeFile e config f a (run_world st) = (a', w', evs)"
    by (cases "resumeFile e config f a (run_world st)")
  have less: "turns_left a' < turns_left a"
    using resumeFile_turns [of a e config f "run_world st"] assms(2) t r by simp
  have at: "map (turns_left \<circ> snd) tasks ! i = turns_left a"
    using assms(1) t by simp
  have "sum_list (map (turns_left \<circ> snd) (tasks[i := (f, a')]))
          = sum_list ((map (turns_left \<circ> snd) tasks)[i := turns_left a'])"
    by (simp add: map_update)
  also have "\<dots> = sum_list (map (turns_left \<circ> snd) tasks) + turns_left a' - turns_left a"
    using assms(1) at by (simp add: sum_list_update)
  also have "\<dots> < sum_list (map (turns_left \<circ> snd) tasks)"
  proof -
    have "map (turns_left \<circ> snd) tasks ! i \<in> set (map (turns_left \<circ> snd) tasks)"
      using assms(1) by (intro nth_mem) simp
    then have "turns_left a \<in> set (map (turns_left \<circ> snd) tasks)"
      by (simp only: at)
    then have "turns_left a \<le> sum_list (map (turns_left \<circ> snd) tasks)"
      by (simp add: member_le_sum_list)
    with less show ?thesis by linarith
  qed
  finally show ?thesis using t r by (simp add: resumeTask_def Let_def)
qed

termination settleAll
proof (relation "measure (\<lambda>(e, config, tasks, st). sum_list (map (turns_left \<circ> snd) tasks))")
  show "wf (measure (\<lambda>(e :: 'w env, config :: BackupConfig,
                       tasks :: (StorageFile \<times> await_point) list, st :: 'w run).
                      sum_list (map (turns_left \<circ> snd) tasks)))"
    by simp
next
  fix e :: "'w env" and config :: BackupConfig
    and tasks :: "(StorageFile \<times> await_point) list" and st :: "'w run"
  assume "pendingFrom 0 tasks \<noteq> []"
  from nextTask_pending [OF this, of e st]
  show "((e, config, fst (resumeTask e config (nextTask e tasks st) tasks st),
          snd (resumeTask e config (nextTask e tasks st) tasks st)),
         (e, config, tasks, st))
        \<in> measure (\<lambda>(e, config, tasks, st). sum_list (map (turns_left \<circ> snd) tasks))"
    by (simp add: resumeTask_turns case_prod_beta)
qed

subsection \<open>Strings, events and batches\<close>

lemma length_five: "length xs = 5 \<Longrightarrow> \<exists>a b c d f. xs = [a, b, c, d, f]"
  by (auto simp: length_Suc_conv eval_nat_numeral)

lemma split_on_no_sep: "c \<notin> set s \<Longrightarrow> split_on c s = [s]"
  by (induction s) auto

lemma split_on_first: "c \<notin> set a \<Longrightarrow> split_on c (a @ c # b) = a # split_on c b"
  by (induction a) auto

lemma bufferMethod_events:
  "bufferMethod e file w = (r, w', evs) \<Longrightarrow>
     LogBufferDownload \<in> set evs \<and> LogTempDownload \<notin> set evs \<and> LogBufferFailed \<notin> set evs
     \<and> (\<forall>t b. WriteFile t b \<notin> set evs) \<and> (\<forall>t p c. UploadFile t p c \<notin> set evs)"
  by (auto simp: bufferMethod_def Let_def split: prod.splits sum.splits)

lemma tempFileMethod_events:
  "tempFileMethod e config file w = (r, w', evs) \<Longrightarrow>
     LogTempDownload \<in> set evs \<and> LogBufferDownload \<notin> set evs \<and> LogBufferFailed \<notin> set evs
     \<and> (\<forall>b p c. UploadBuffer b p c \<notin> set evs)
     \<and> (\<forall>t b. WriteFile t b \<in> set evs \<longrightarrow>
            t = path_join e (tempDir config) (flattenPath (path file)))
     \<and> (\<forall>t p c. UploadFile t p c \<in> set evs \<longrightarrow>
            t = path_join e (tempDir config) (flattenPath (path file)) \<and> p = path file)"
  by (auto simp: tempFileMethod_def Let_def split: prod.splits sum.splits option.splits)

declare contiguous_batches.simps [simp del]

declare settleAll.simps [simp del]

lemma scanItems_log:
  "list_all is_scan_event (scan_log st) \<Longrightarrow>
   list_all is_scan_event (scan_log (scanItems p items st))"
  by (induction items arbitrary: st) simp_all

lemma listStep_log:
  assumes "list_all is_scan_event (scan_log st)"
  shows "list_all is_scan_event (scan_log (listStep e st))"
proof (cases "foldersToProcess st")
  case Nil
  then show ?thesis using assms by (simp add: listStep_def)
next
  case (Cons p rest)
  obtain r w' where sl: "storage_list e p (scan_world st) = (r, w')"
    by (cases "storage_list e p (scan_world st)")
  have "list_all is_scan_event (scan_log (scanItems p data
           (st\<lparr> foldersToProcess := rest,
               processedFolders := insert p (processedFolders st),
               scan_world := w', scan_log := scan_log st @ [ListPath p] \<rparr>)))" for data
    by (rule scanItems_log) (use assms in simp)
  then show ?thesis
    using assms Cons sl
    by (simp add: listStep_def Let_def split: sum.splits option.splits)
qed

lemma listLoop_log:
  assumes "listLoop e st = Some y"
  shows "list_all is_scan_event (scan_log st) \<longrightarrow> list_all is_scan_event (scan_log y)"
  by (rule listLoop.raw_induct [OF _ assms]) (auto split: if_splits intro: listStep_log)

lemma listAllFiles_log:
  assumes "listAllFiles e w = Some (fs, w', evs)"
  shows "list_all is_scan_event evs"
proof -
  obtain y where y: "listLoop e \<lparr> foldersToProcess = [[]], processedFolders = {}, allFiles = [],
                     scan_world = w, scan_log = [] \<rparr> = Some y" and "evs = scan_log y"
    using assms by (auto simp: listAllFiles_def)
  then show ?thesis using listLoop_log [OF y] by simp
qed

lemma concat_contiguous_batches: "0 < k \<Longrightarrow> concat (contiguous_batches k xs) = xs"
proof (induction k xs rule: contiguous_batches.induct)
  case (1 k xs)
  then show ?case by (subst contiguous_batches.simps) simp
qed

lemma length_contiguous_batches:
  "0 < k \<Longrightarrow> length (contiguous_batches k xs) = (length xs + k - 1) div k"
proof (induction k xs rule: contiguous_batches.induct)
  case (1 k xs)
  show ?case
  proof (cases "xs = []")
    case True
    then show ?thesis using 1(2) by (subst contiguous_batches.simps) simp
  next
    case False
    then have IH: "length (contiguous_batches k (drop k xs)) = (length (drop k xs) + k - 1) div k"
      using 1 by simp
    have len: "0 < length xs" using False by simp
    have eq: "length xs + k - 1 = (length xs - 1) + k" using len by (cases xs) simp_all
    have "(length xs - 1 + k) div k = Suc ((length xs - 1) div k)"
      using 1(2) div_add_self2 [of k "length xs - 1"] by simp
    then have total: "(length xs + k - 1) div k = Suc ((length xs - 1) div k)"
      by (simp only: eq)
    have unf: "length (contiguous_batches k xs) = Suc (length (contiguous_batches k (drop k xs)))"
      using False 1(2) by (subst contiguous_batches.simps) simp
    show ?thesis
    proof (cases "k \<le> length xs")
      case True
      then have "length (drop k xs) + k - 1 = length xs - 1" by simp
      then show ?thesis
        unfolding unf IH total by simp
    next
      case small: False
      then have z: "(length xs - 1) div k = 0" using len by simp
      have "drop k xs = []" using small by simp
      then have "contiguous_batches k (drop k xs) = []"
        by (subst contiguous_batches.simps) simp
      then show ?thesis
        unfolding unf total z by simp
    qed
  qed
qed

lemma width_contiguous_batches:
  "b \<in> set (contiguous_batches k xs) \<Longrightarrow> b \<noteq> [] \<and> length b \<le> k"
proof (induction k xs rule: contiguous_batches.induct)
  case (1 k xs)
  from 1(2) show ?case
    by (subst (asm) contiguous_batches.simps) (use 1(1) in \<open>auto split: if_splits\<close>)
qed

lemma full_contiguous_batches:
  "Suc j < length (contiguous_batches k xs) \<Longrightarrow> length (contiguous_batches k xs ! j) = k"
proof (induction k xs arbitrary: j rule: contiguous_batches.induct)
  case (1 k xs)
  have ne: "\<not> (k = 0 \<or> xs = [])"
    using "1.prems" by (subst (asm) contiguous_batches.simps) (auto split: if_splits)
  then have unf: "contiguous_batches k xs = take k xs # contiguous_batches k (drop k xs)"
    by (subst contiguous_batches.simps) simp
  show ?case
  proof (cases j)
    case 0
    then have "contiguous_batches k (drop k xs) \<noteq> []"
      using "1.prems" unf by auto
    then have "drop k xs \<noteq> []"
      by (subst (asm) contiguous_batches.simps) (auto split: if_splits)
    then have "k \<le> length xs" by simp
    then show ?thesis using 0 unf by simp
  next
    case (Suc j')
    then have "Suc j' < length (contiguous_batches k (drop k xs))"
      using "1.prems" unf by simp
    from "1.IH" [OF ne this] show ?thesis using Suc unf by simp
  qed
qed

lemma js_slice_batch:
  assumes "0 < k" and "j < length files"
  shows "js_slice files (Some (int j))
           (js_min (js_plus (Some (int j)) (Some k)) (Some (int (length files))))
         = take (nat k) (drop j files)"
proof -
  have "nat (min (int j + k) (int (length files)) - int j) = min (nat k) (length files - j)"
    using assms by (auto simp: min_def nat_diff_distrib)
  then show ?thesis
    using assms by (simp add: js_slice_def js_min_def js_plus_def to_integer_def Let_def min_def)
qed

lemma batchLoop_from:
  assumes "batchSize config = Some k" and "0 < k"
  shows "batchLoop e config files (Some (int j)) st =
           Some (foldl (\<lambda>s b. processBatch e config b s) st
                   (contiguous_batches (nat k) (drop j files)))"
proof (induction "length files - j" arbitrary: j st rule: less_induct)
  case less
  show ?case
  proof (cases "j < length files")
    case False
    then show ?thesis
      by (subst batchLoop.simps, subst contiguous_batches.simps) (simp add: js_less_def)
  next
    case True
    have next_ix: "js_plus (Some (int j)) (batchSize config) = Some (int (j + nat k))"
      using assms by (simp add: js_plus_def)
    have smaller: "length files - (j + nat k) < length files - j"
      using True assms by simp
    have IH: "batchLoop e config files (Some (int (j + nat k))) st' =
           Some (foldl (\<lambda>s b. processBatch e config b s) st'
                   (contiguous_batches (nat k) (drop (j + nat k) files)))" for st'
      by (rule less [OF smaller])
    have ne: "drop j files \<noteq> []" using True by simp
    have unfold_b: "contiguous_batches (nat k) (drop j files) =
        take (nat k) (drop j files) # contiguous_batches (nat k) (drop (j + nat k) files)"
      using assms ne by (subst contiguous_batches.simps) (simp add: add.commute)
    let ?b = "take (nat k) (drop j files)"
    have "batchLoop e config files (Some (int j)) st =
        batchLoop e config files (js_plus (Some (int j)) (batchSize config))
          (processBatch e config
             (js_slice files (Some (int j))
                (js_min (js_plus (Some (int j)) (batchSize config)) (Some (int (length files))))) st)"
      using True by (subst batchLoop.simps) (simp add: js_less_def)
    also have "\<dots> = batchLoop e config files (js_plus (Some (int j)) (batchSize config))
                       (processBatch e config ?b st)"
      by (simp only: assms(1) js_slice_batch [OF assms(2) True])
    also have "\<dots> = batchLoop e config files (Some (int (j + nat k)))
                       (processBatch e config ?b st)"
      by (simp only: next_ix)
    also have "\<dots> = Some (foldl (\<lambda>s b. processBatch e config b s) (processBatch e config ?b st)
                   (contiguous_batches (nat k) (drop (j + nat k) files)))"
      by (rule IH)
    also have "\<dots> = Some (foldl (\<lambda>s b. processBatch e config b s) st
                   (contiguous_batches (nat k) (drop j files)))"
      by (simp only: unfold_b foldl_Cons)
    finally show ?thesis .
  qed
qed

lemma batchLoop_nonpositive:
  assumes "batchLoop e config files i st = Some y"
  shows "\<not> (\<exists>k j. batchSize config = Some k \<and> k \<le> 0 \<and> i = Some j \<and> j < int (length files))"
proof (rule batchLoop.raw_induct [OF _ assms])
  fix loop :: "'a env \<Rightarrow> BackupConfig \<Rightarrow> StorageFile list \<Rightarrow> js_number \<Rightarrow> 'a run \<Rightarrow> 'a run option"
    and e config files i st y
  assume IH: "\<And>e' c' files' i' st' y'. loop e' c' files' i' st' = Some y' \<Longrightarrow>
                \<not> (\<exists>k j. batchSize c' = Some k \<and> k \<le> 0 \<and> i' = Some j \<and> j < int (length files'))"
    and body: "(if js_less i (Some (int (length files)))
                then loop e config files (js_plus i (batchSize config))
                       (processBatch e config
                          (js_slice files i
                             (js_min (js_plus i (batchSize config)) (Some (int (length files))))) st)
                else Some st) = Some y"
  show "\<not> (\<exists>k j. batchSize config = Some k \<and> k \<le> 0 \<and> i = Some j \<and> j < int (length files))"
  proof
    assume "\<exists>k j. batchSize config = Some k \<and> k \<le> 0 \<and> i = Some j \<and> j < int (length files)"
    then obtain k j where k: "batchSize config = Some k" "k \<le> 0"
      and j: "i = Some j" "j < int (length files)" by blast
    from body k j have "loop e config files (Some (j + k))
                       (processBatch e config
                          (js_slice files i
                             (js_min (js_plus i (batchSize config)) (Some (int (length files))))) st)
                       = Some y"
      by (simp add: js_less_def js_plus_def)
    from IH [OF this] k j show False by simp
  qed
qed

lemma batchLoop_never_ends:
  assumes "batchSize config = Some k" and "k \<le> 0" and "j < int (length files)"
  shows "batchLoop e config files (Some j) st = None"
proof (cases "batchLoop e config files (Some j) st")
  case None
  then show ?thesis .
next
  case (Some y)
  from batchLoop_nonpositive [OF Some] assms show ?thesis by blast
qed

lemma settleAll_nothing: "settleAll e config [] st = st"
  by (subst settleAll.simps) simp

lemma batchLoop_NaN:
  assumes "batchSize config = None" and "files \<noteq> []"
  shows "batchLoop e config files (Some 0) st
           = Some (st\<lparr> run_log := run_log st @ [LogBatch []] \<rparr>)"
proof -
  have first: "batchLoop e config files (Some 0) st =
      batchLoop e config files None (processBatch e config [] st)"
    using assms
    by (subst batchLoop.simps)
       (simp add: js_less_def js_plus_def js_min_def js_slice_def to_integer_def)
  have last: "batchLoop e config files None s = Some s" for s
    by (subst batchLoop.simps) (simp add: js_less_def)
  show ?thesis
    by (simp add: first last processBatch_def settleAll_nothing)
qed

subsection \<open>Counters\<close>

lemma settleCallback_counted: "counted (settleCallback f r st) = counted st + 1"
  by (simp add: settleCallback_def counted_def split: option.splits)

lemma pendingFrom_length:
  "length (pendingFrom k tasks) = length (filter (\<lambda>t. \<not> is_settled (snd t)) tasks)"
  by (induction tasks arbitrary: k) simp_all

lemma filter_update_length:
  assumes "i < length xs" and "P (xs ! i)"
  shows "length (filter P (xs[i := y])) + (if P y then 0 else 1) = length (filter P xs)"
  using assms
proof (induction xs arbitrary: i)
  case Nil
  then show ?case by simp
next
  case (Cons x xs)
  show ?case
  proof (cases i)
    case 0
    with Cons.prems show ?thesis by simp
  next
    case (Suc i')
    with Cons.prems have "i' < length xs" "P (xs ! i')" by simp_all
    from Cons.IH [OF this] Suc show ?thesis by simp
  qed
qed

lemma resumeTask_counted:
  assumes "i < length tasks" and "\<not> is_settled (snd (tasks ! i))"
  shows "counted (snd (resumeTask e config i tasks st))
           + length (pendingFrom 0 (fst (resumeTask e config i tasks st)))
         = counted st + length (pendingFrom 0 tasks)"
proof -
  obtain f a where t: "tasks ! i = (f, a)" by (cases "tasks ! i")
  obtain a' w' evs where r: "resumeFile e config f a (run_world st) = (a', w', evs)"
    by (cases "resumeFile e config f a (run_world st)")
  let ?st1 = "st\<lparr> run_world := w', run_log := run_log st @ evs \<rparr>"
  have tasks': "fst (resumeTask e config i tasks st) = tasks[i := (f, a')]"
    using t r by (simp add: resumeTask_def Let_def)
  have st': "snd (resumeTask e config i tasks st)
               = (case a' of Settled x \<Rightarrow> settleCallback f x ?st1 | _ \<Rightarrow> ?st1)"
    using t r by (simp add: resumeTask_def Let_def)
  have pend: "length (pendingFrom 0 (tasks[i := (f, a')])) + (if \<not> is_settled a' then 0 else 1)
                = length (pendingFrom 0 tasks)"
    using filter_update_length [of i tasks "\<lambda>t. \<not> is_settled (snd t)" "(f, a')"] assms
    by (simp add: pendingFrom_length)
  have same: "counted ?st1 = counted st" by (simp add: counted_def)
  show ?thesis
  proof (cases "is_settled a'")
    case True
    then obtain x where "a' = Settled x" by (cases a') simp_all
    then show ?thesis
      using pend same tasks' st' by (simp add: settleCallback_counted)
  next
    case False
    then have "(case a' of Settled x \<Rightarrow> settleCallback f x ?st1 | _ \<Rightarrow> ?st1) = ?st1"
      by (cases a') simp_all
    then show ?thesis
      using pend same tasks' st' False by simp
  qed
qed

lemma settleAll_counted:
  "counted (settleAll e config tasks st) = counted st + length (pendingFrom 0 tasks)"
proof (induction e config tasks st rule: settleAll.induct)
  case (1 e config tasks st)
  show ?case
  proof (cases "pendingFrom 0 tasks = []")
    case True
    then show ?thesis by (subst settleAll.simps) simp
  next
    case False
    from nextTask_pending [OF False, of e st]
    have step: "counted (snd (resumeTask e config (nextTask e tasks st) tasks st))
           + length (pendingFrom 0 (fst (resumeTask e config (nextTask e tasks st) tasks st)))
         = counted st + length (pendingFrom 0 tasks)"
      by (intro resumeTask_counted) simp_all
    have "counted (settleAll e config tasks st)
            = counted (settleAll e config
                 (fst (resumeTask e config (nextTask e tasks st) tasks st))
                 (snd (resumeTask e config (nextTask e tasks st) tasks st)))"
      using False by (subst settleAll.simps) simp
    also have "\<dots> = counted (snd (resumeTask e config (nextTask e tasks st) tasks st))
           + length (pendingFrom 0 (fst (resumeTask e config (nextTask e tasks st) tasks st)))"
      by (rule "1.IH" [OF False])
    finally show ?thesis using step by simp
  qed
qed

lemma processBatch_counted: "counted (processBatch e config batch st) = counted st + length batch"
proof -
  have "length (pendingFrom 0 (map (\<lambda>f. (f, AwaitExists)) batch)) = length batch"
    by (simp add: pendingFrom_length)
  then show ?thesis
    by (simp add: processBatch_def settleAll_counted) (simp add: counted_def)
qed

lemma foldl_processBatch_counted:
  "counted (foldl (\<lambda>s b. processBatch e config b s) st bs) = counted st + length (concat bs)"
proof (induction bs arbitrary: st)
  case Nil
  then show ?case by simp
next
  case (Cons b bs)
  show ?case
    using Cons [of "processBatch e config b st"] processBatch_counted [of e config b st] by simp
qed

subsection \<open>What the run reads of the configuration\<close>

lemma tempFileMethod_config:
  assumes "tempDir c' = tempDir c"
  shows "tempFileMethod e c' file w = tempFileMethod e c file w"
  using assms by (simp add: tempFileMethod_def)

lemma backupFile_config:
  assumes "tempDir c' = tempDir c"
  shows "backupFile e c' file w = backupFile e c file w"
  unfolding backupFile_def tempFileMethod_config [OF assms] by (rule refl)

lemma resumeFile_config:
  assumes "tempDir c' = tempDir c"
  shows "resumeFile e c' file a w = resumeFile e c file a w"
proof -
  have tp: "tempFilePath e c' file = tempFilePath e c file"
    using assms by (simp add: tempFilePath_def)
  show ?thesis
    by (cases a) (simp_all only: resumeFile.simps tp)
qed

lemma resumeTask_config:
  assumes "tempDir c' = tempDir c"
  shows "resumeTask e c' i tasks st = resumeTask e c i tasks st"
  unfolding resumeTask_def resumeFile_config [OF assms] by (rule refl)

lemma settleAll_config:
  assumes "tempDir c' = tempDir c"
  shows "settleAll e c' tasks st = settleAll e c tasks st"
  using assms
proof (induction e c tasks st rule: settleAll.induct)
  case (1 e c tasks st)
  note same = resumeTask_config [OF "1.prems"]
  show ?case
  proof (cases "pendingFrom 0 tasks = []")
    case True
    then show ?thesis by (simp add: settleAll.simps [of e c'] settleAll.simps [of e c])
  next
    case False
    have "settleAll e c' tasks st
            = settleAll e c' (fst (resumeTask e c (nextTask e tasks st) tasks st))
                (snd (resumeTask e c (nextTask e tasks st) tasks st))"
      using False by (subst settleAll.simps) (simp add: same)
    also have "\<dots> = settleAll e c (fst (resumeTask e c (nextTask e tasks st) tasks st))
                (snd (resumeTask e c (nextTask e tasks st) tasks st))"
      by (rule "1.IH" [OF False "1.prems"])
    also have "\<dots> = settleAll e c tasks st"
      using False by (subst (2) settleAll.simps) simp
    finally show ?thesis .
  qed
qed

lemma processBatch_config:
  assumes "tempDir c' = tempDir c"
  shows "processBatch e c' batch st = processBatch e c batch st"
  by (simp add: processBatch_def settleAll_config [OF assms])

subsection \<open>A batch of one file is the transfer of that file\<close>

lemma settleAll_single:
  assumes "\<not> is_settled a"
  shows "settleAll e config [(f, a)] st =
     (case resumeFile e config f a (run_world st) of
        (a', w', evs) \<Rightarrow>
          (case a' of
             Settled r \<Rightarrow> settleCallback f r (st\<lparr> run_world := w', run_log := run_log st @ evs \<rparr>)
           | _ \<Rightarrow> settleAll e config [(f, a')]
                    (st\<lparr> run_world := w', run_log := run_log st @ evs \<rparr>)))"
proof -
  obtain a' w' evs where r: "resumeFile e config f a (run_world st) = (a', w', evs)"
    by (cases "resumeFile e config f a (run_world st)")
  have nt: "nextTask e [(f, a)] st = 0"
    using assms by (simp add: nextTask_def)
  have step: "settleAll e config [(f, a)] st =
      settleAll e config (fst (resumeTask e config 0 [(f, a)] st))
        (snd (resumeTask e config 0 [(f, a)] st))"
    using assms by (subst settleAll.simps) (simp add: nt)
  show ?thesis
  proof (cases "is_settled a'")
    case True
    then obtain x where x: "a' = Settled x" by (cases a') simp_all
    have "settleAll e config [(f, Settled x)] s = s" for s
      by (subst settleAll.simps) simp
    then show ?thesis
      using r x by (simp add: step resumeTask_def Let_def)
  next
    case False
    then have "(case a' of Settled x \<Rightarrow> X x | _ \<Rightarrow> Y) = Y" for X :: "js_error option \<Rightarrow> 'a run" and Y
      by (cases a') simp_all
    then show ?thesis
      using r by (simp add: step resumeTask_def Let_def)
  qed
qed

lemma step_exists:
  "settleAll e config [(f, AwaitExists)] st =
     (case fileExists e (path f) (run_world st) of
        (ex, w1) \<Rightarrow>
          if ex
          then settleCallback f (Some (Error ''File already exists''))
                 (st\<lparr> run_world := w1,
                     run_log := run_log st @ [FileExists (path f), LogSkip (path f)] \<rparr>)
          else if fsize f \<noteq> 0 \<and> fsize f < 100 * 1024 * 1024
          then settleAll e config [(f, AwaitBufferDownload)]
                 (st\<lparr> run_world := w1,
                     run_log := run_log st @ [FileExists (path f), LogBufferDownload] \<rparr>)
          else settleAll e config [(f, AwaitTempDownload)]
                 (st\<lparr> run_world := w1,
                     run_log := run_log st @ [FileExists (path f), LogTempDownload] \<rparr>))"
  by (simp add: settleAll_single Let_def split: prod.splits)

lemma step_buffer_download:
  "settleAll e config [(f, AwaitBufferDownload)] st =
     (case downloadFile e (path f) (run_world st) of
        (Inl ex, w1) \<Rightarrow>
          settleAll e config [(f, AwaitTempDownload)]
            (st\<lparr> run_world := w1,
                run_log := run_log st @ [Download (path f), LogBufferFailed, LogTempDownload] \<rparr>)
      | (Inr buf, w1) \<Rightarrow>
          settleAll e config [(f, AwaitBufferUpload buf)]
            (st\<lparr> run_world := w1, run_log := run_log st @ [Download (path f), LogBufferUpload] \<rparr>))"
  by (simp add: settleAll_single Let_def split: prod.splits sum.splits)

lemma step_buffer_upload:
  "settleAll e config [(f, AwaitBufferUpload buf)] st =
     (case uploadBuffer e buf (path f) (getContentType e (name f)) (run_world st) of
        (None, w1) \<Rightarrow>
          settleCallback f None
            (st\<lparr> run_world := w1,
                run_log := run_log st @ [UploadBuffer buf (path f) (getContentType e (name f))] \<rparr>)
      | (Some ex, w1) \<Rightarrow>
          settleAll e config [(f, AwaitTempDownload)]
            (st\<lparr> run_world := w1,
                run_log := run_log st @ [UploadBuffer buf (path f) (getContentType e (name f)),
                                         LogBufferFailed, LogTempDownload] \<rparr>))"
  by (simp add: settleAll_single Let_def split: prod.splits option.splits)

lemma step_temp_download:
  "settleAll e config [(f, AwaitTempDownload)] st =
     (case downloadFile e (path f) (run_world st) of
        (Inl ex, w1) \<Rightarrow>
          settleAll e config [(f, AwaitRmCatch ex)]
            (st\<lparr> run_world := w1, run_log := run_log st @ [Download (path f)] \<rparr>)
      | (Inr buf, w1) \<Rightarrow>
          settleAll e config [(f, AwaitWriteFile buf)]
            (st\<lparr> run_world := w1, run_log := run_log st @ [Download (path f)] \<rparr>))"
  by (simp add: settleAll_single Let_def split: prod.splits sum.splits)

lemma step_write_file:
  "settleAll e config [(f, AwaitWriteFile buf)] st =
     (case writeFile e (tempFilePath e config f) buf (run_world st) of
        (Some ex, w1) \<Rightarrow>
          settleAll e config [(f, AwaitRmCatch ex)]
            (st\<lparr> run_world := w1,
                run_log := run_log st @ [WriteFile (tempFilePath e config f) buf] \<rparr>)
      | (None, w1) \<Rightarrow>
          settleAll e config [(f, AwaitUploadFile)]
            (st\<lparr> run_world := w1,
                run_log := run_log st @ [WriteFile (tempFilePath e config f) buf, LogTempUpload] \<rparr>))"
  by (simp add: settleAll_single Let_def split: prod.splits option.splits)

lemma step_upload_file:
  "settleAll e config [(f, AwaitUploadFile)] st =
     (case uploadFile e (tempFilePath e config f) (path f) (getContentType e (name f))
             (run_world st) of
        (Some ex, w1) \<Rightarrow>
          settleAll e config [(f, AwaitRmCatch ex)]
            (st\<lparr> run_world := w1,
                run_log := run_log st @ [UploadFile (tempFilePath e config f) (path f)
                                           (getContentType e (name f))] \<rparr>)
      | (None, w1) \<Rightarrow>
          settleAll e config [(f, AwaitRm)]
            (st\<lparr> run_world := w1,
                run_log := run_log st @ [UploadFile (tempFilePath e config f) (path f)
                                           (getContentType e (name f))] \<rparr>))"
  by (simp add: settleAll_single Let_def split: prod.splits option.splits)

lemma step_rm:
  "settleAll e config [(f, AwaitRm)] st =
     (case rm e (tempFilePath e config f) False (run_world st) of
        (None, w1) \<Rightarrow>
          settleCallback f None
            (st\<lparr> run_world := w1, run_log := run_log st @ [RmFile (tempFilePath e config f)] \<rparr>)
      | (Some ex, w1) \<Rightarrow>
          settleAll e config [(f, AwaitRmCatch ex)]
            (st\<lparr> run_world := w1, run_log := run_log st @ [RmFile (tempFilePath e config f)] \<rparr>))"
  by (simp add: settleAll_single Let_def split: prod.splits option.splits)

lemma step_rm_catch:
  "settleAll e config [(f, AwaitRmCatch ex)] st =
     (case rm e (tempFilePath e config f) False (run_world st) of
        (_, w1) \<Rightarrow>
          settleCallback f (Some ex)
            (st\<lparr> run_world := w1, run_log := run_log st @ [RmFile (tempFilePath e config f)] \<rparr>))"
  by (simp add: settleAll_single split: prod.splits)

lemmas settle_steps = step_exists step_buffer_download step_buffer_upload step_temp_download
  step_write_file step_upload_file step_rm step_rm_catch

lemma settle_staged:
  "settleAll e config [(f, AwaitTempDownload)] s =
     (case tempFileMethod e config f (run_world s) of
        (r, w', evs) \<Rightarrow>
          settleCallback f r (s\<lparr> run_world := w', run_log := run_log s @ tl evs \<rparr>))"
  by (simp add: step_temp_download step_write_file step_upload_file step_rm step_rm_catch
      tempFileMethod_def tempFilePath_def Let_def
      split: prod.splits sum.splits option.splits)

lemma tempFileMethod_first:
  "tempFileMethod e config f w = (r, w', evs) \<Longrightarrow> \<exists>evs'. evs = LogTempDownload # evs'"
  by (auto simp: tempFileMethod_def Let_def split: prod.splits sum.splits option.splits)

lemma backupTask_settle:
  "backupTask e config f st =
     (case backupFile e config f (run_world st) of
        (r, w', evs) \<Rightarrow>
          settleCallback f r (st\<lparr> run_world := w', run_log := run_log st @ evs \<rparr>))"
  by (simp add: backupTask_def settleCallback_def Let_def split: prod.splits option.splits)

lemma processBatch_single:
  "processBatch e config [f] st
     = backupTask e config f (st\<lparr> run_log := run_log st @ [LogBatch [f]] \<rparr>)"
proof -
  let ?p = "path f"
  let ?s0 = "st\<lparr> run_log := run_log st @ [LogBatch [f], LogProcessing ?p] \<rparr>"
  obtain ex w1 where fe: "fileExists e ?p (run_world st) = (ex, w1)"
    by (cases "fileExists e ?p (run_world st)")
  have lhs: "processBatch e config [f] st = settleAll e config [(f, AwaitExists)] ?s0"
    by (simp add: processBatch_def)
  have staged: "settleAll e config [(f, AwaitTempDownload)]
                  (st\<lparr> run_world := w, run_log := lg @ [LogTempDownload] \<rparr>)
      = settleCallback f r (st\<lparr> run_world := w', run_log := lg @ evs \<rparr>)"
    if "tempFileMethod e config f w = (r, w', evs)" for w lg r w' evs
  proof -
    from tempFileMethod_first [OF that] obtain evs' where "evs = LogTempDownload # evs'" by blast
    then show ?thesis using that by (simp add: settle_staged)
  qed
  show ?thesis
  proof (cases ex)
    case True
    then show ?thesis
      using fe by (simp add: lhs step_exists backupTask_settle backupFile_def)
  next
    case nex: False
    have not_small: ?thesis if large: "(fsize f \<noteq> 0 \<and> fsize f < 104857600) = False"
    proof -
      obtain r w' evs where t: "tempFileMethod e config f w1 = (r, w', evs)"
        by (cases "tempFileMethod e config f w1")
      have "processBatch e config [f] st
          = settleAll e config [(f, AwaitTempDownload)]
              (st\<lparr> run_world := w1,
                  run_log := (run_log st @ [LogBatch [f], LogProcessing ?p, FileExists ?p])
                             @ [LogTempDownload] \<rparr>)"
        using fe nex by (simp add: lhs step_exists large)
      also have "\<dots> = settleCallback f r
              (st\<lparr> run_world := w',
                  run_log := (run_log st @ [LogBatch [f], LogProcessing ?p, FileExists ?p]) @ evs \<rparr>)"
        by (rule staged [OF t])
      also have "\<dots> = backupTask e config f (st\<lparr> run_log := run_log st @ [LogBatch [f]] \<rparr>)"
        using fe nex t by (simp add: backupTask_settle backupFile_def large)
      finally show ?thesis .
    qed
    consider (zero) "fsize f = 0" | (small) "fsize f \<noteq> 0" "fsize f < 104857600"
      | (big) "104857600 \<le> fsize f"
      by linarith
    then show ?thesis
    proof cases
      case zero
      then show ?thesis by (intro not_small) simp
    next
      case big
      then show ?thesis by (intro not_small) simp
    next
      case small
      obtain d w2 where dl: "downloadFile e ?p w1 = (d, w2)"
        by (cases "downloadFile e ?p w1")
      show ?thesis
      proof (cases d)
        case (Inl x)
        obtain r w' evs where t: "tempFileMethod e config f w2 = (r, w', evs)"
          by (cases "tempFileMethod e config f w2")
        have "processBatch e config [f] st
            = settleAll e config [(f, AwaitTempDownload)]
                (st\<lparr> run_world := w2,
                    run_log := (run_log st @ [LogBatch [f], LogProcessing ?p, FileExists ?p,
                                              LogBufferDownload, Download ?p, LogBufferFailed])
                               @ [LogTempDownload] \<rparr>)"
          using fe nex small dl Inl by (simp add: lhs step_exists step_buffer_download)
        also have "\<dots> = settleCallback f r
                (st\<lparr> run_world := w',
                    run_log := (run_log st @ [LogBatch [f], LogProcessing ?p, FileExists ?p,
                                              LogBufferDownload, Download ?p, LogBufferFailed])
                               @ evs \<rparr>)"
          by (rule staged [OF t])
        also have "\<dots> = backupTask e config f (st\<lparr> run_log := run_log st @ [LogBatch [f]] \<rparr>)"
          using fe nex small dl Inl t
          by (simp add: backupTask_settle backupFile_def bufferMethod_def)
        finally show ?thesis .
      next
        case (Inr buf)
        let ?ct = "getContentType e (name f)"
        obtain u w3 where up: "uploadBuffer e buf ?p ?ct w2 = (u, w3)"
          by (cases "uploadBuffer e buf ?p ?ct w2")
        show ?thesis
        proof (cases u)
          case None
          then show ?thesis
            using fe nex small dl Inr up
            by (simp add: lhs step_exists step_buffer_download step_buffer_upload
                backupTask_settle backupFile_def bufferMethod_def)
        next
          case (Some x)
          obtain r w' evs where t: "tempFileMethod e config f w3 = (r, w', evs)"
            by (cases "tempFileMethod e config f w3")
          have "processBatch e config [f] st
              = settleAll e config [(f, AwaitTempDownload)]
                  (st\<lparr> run_world := w3,
                      run_log := (run_log st @ [LogBatch [f], LogProcessing ?p, FileExists ?p,
                                                LogBufferDownload, Download ?p, LogBufferUpload,
                                                UploadBuffer buf ?p ?ct, LogBufferFailed])
                                 @ [LogTempDownload] \<rparr>)"
            using fe nex small dl Inr up Some
            by (simp add: lhs step_exists step_buffer_download step_buffer_upload)
          also have "\<dots> = settleCallback f r
                  (st\<lparr> run_world := w',
                      run_log := (run_log st @ [LogBatch [f], LogProcessing ?p, FileExists ?p,
                                                LogBufferDownload, Download ?p, LogBufferUpload,
                                                UploadBuffer buf ?p ?ct, LogBufferFailed])
                                 @ evs \<rparr>)"
            by (rule staged [OF t])
          also have "\<dots> = backupTask e config f (st\<lparr> run_log := run_log st @ [LogBatch [f]] \<rparr>)"
            using fe nex small dl Inr up Some t
            by (simp add: backupTask_settle backupFile_def bufferMethod_def)
          finally show ?thesis .
        qed
      qed
    qed
  qed
qed

subsection \<open>The events before the batches, and the loop under two configurations\<close>

lemma scan_is_prelude: "is_scan_event ev \<Longrightarrow> is_prelude_event ev"
  by (cases ev) simp_all

lemma ensureTempDir_log:
  "ensureTempDir e config w = (r, w1, ev1) \<Longrightarrow> list_all is_prelude_event ev1"
  by (auto simp: ensureTempDir_def split: if_splits prod.splits option.splits)

lemma batchLoop_config_le:
  assumes "batchLoop e c' files i st = Some y"
  shows "tempDir c' = tempDir c \<and> batchSize c' = batchSize c
           \<longrightarrow> batchLoop e c files i st = Some y"
proof (rule batchLoop.raw_induct [OF _ assms])
  fix loop :: "'a env \<Rightarrow> BackupConfig \<Rightarrow> StorageFile list \<Rightarrow> js_number \<Rightarrow> 'a run \<Rightarrow> 'a run option"
    and e c' files i st y
  assume IH: "\<And>e' c'' files' i' st' y'. loop e' c'' files' i' st' = Some y' \<Longrightarrow>
                tempDir c'' = tempDir c \<and> batchSize c'' = batchSize c
                  \<longrightarrow> batchLoop e' c files' i' st' = Some y'"
    and body: "(if js_less i (Some (int (length files)))
                then loop e c' files (js_plus i (batchSize c'))
                       (processBatch e c'
                          (js_slice files i
                             (js_min (js_plus i (batchSize c')) (Some (int (length files))))) st)
                else Some st) = Some y"
  show "tempDir c' = tempDir c \<and> batchSize c' = batchSize c \<longrightarrow> batchLoop e c files i st = Some y"
  proof
    assume same: "tempDir c' = tempDir c \<and> batchSize c' = batchSize c"
    show "batchLoop e c files i st = Some y"
    proof (cases "js_less i (Some (int (length files)))")
      case True
      with body have "loop e c' files (js_plus i (batchSize c'))
                       (processBatch e c'
                          (js_slice files i
                             (js_min (js_plus i (batchSize c')) (Some (int (length files))))) st)
                      = Some y" by simp
      from IH [OF this] same
      have "batchLoop e c files (js_plus i (batchSize c'))
              (processBatch e c'
                 (js_slice files i
                    (js_min (js_plus i (batchSize c')) (Some (int (length files))))) st)
            = Some y" by simp
      then show ?thesis
        using True same processBatch_config [of c' c e]
        by (subst batchLoop.simps) simp
    next
      case False
      with body show ?thesis by (subst batchLoop.simps) simp
    qed
  qed
qed

lemma batchLoop_config:
  assumes "tempDir c' = tempDir c" and "batchSize c' = batchSize c"
  shows "batchLoop e c' files i st = batchLoop e c files i st"
proof (cases "batchLoop e c' files i st")
  case (Some y)
  then show ?thesis using batchLoop_config_le [OF Some, of c] assms by simp
next
  case None
  show ?thesis
  proof (cases "batchLoop e c files i st")
    case None' : None
    with None show ?thesis by simp
  next
    case (Some y)
    then show ?thesis using batchLoop_config_le [OF Some, of c'] assms by simp
  qed
qed

lemma ensureTempDir_config:
  assumes "tempDir c' = tempDir c"
  shows "ensureTempDir e c' w = ensureTempDir e c w"
  unfolding ensureTempDir_def assms by (rule refl)

lemma cleanupTempDir_config:
  assumes "tempDir c' = tempDir c"
  shows "cleanupTempDir e c' w = cleanupTempDir e c w"
  unfolding cleanupTempDir_def assms by (rule refl)

lemma backup_config:
  assumes "tempDir c' = tempDir c" and "batchSize c' = batchSize c"
  shows "backup e c' w = backup e c w"
  unfolding backup_def ensureTempDir_config [OF assms(1)] cleanupTempDir_config [OF assms(1)]
    batchLoop_config [OF assms]
  by (rule refl)

subsection \<open>The files of an enumeration\<close>






subsection \<open>Evaluation in the in-memory world\<close>

lemma fake_env_sel:
  "existsSync (fake_env t a b c d) = (\<lambda>p w. fw_dir w)"
  "mkdir (fake_env t a b c d) =
     (\<lambda>p w. case a of Some ex \<Rightarrow> (Some ex, w) | None \<Rightarrow> (None, w\<lparr> fw_dir := True \<rparr>))"
  "storage_list (fake_env t a b c d) =
     (\<lambda>p w. (Inr \<lparr> reply_data = map_of t p, reply_error = None \<rparr>, w))"
  "downloadFile (fake_env t a b c d) = (\<lambda>p w. (Inr ''bytes'', w))"
  "getContentType (fake_env t a b c d) = (\<lambda>n. ''application/octet-stream'')"
  "fileExists (fake_env t a b c d) = (\<lambda>p w. (p \<in> set (fw_dest w), w))"
  "uploadBuffer (fake_env t a b c d) =
     (\<lambda>bf p ct w. case b of Some ex \<Rightarrow> (Some ex, w)
                    | None \<Rightarrow> (None, w\<lparr> fw_dest := p # fw_dest w \<rparr>))"
  "uploadFile (fake_env t a b c d) =
     (\<lambda>tp p ct w. case c of Some ex \<Rightarrow> (Some ex, w)
                    | None \<Rightarrow> if tp \<in> set (fw_tmp w)
                              then (None, w\<lparr> fw_dest := p # fw_dest w \<rparr>)
                              else (Some (Error ''ENOENT''), w))"
  "writeFile (fake_env t a b c d) = (\<lambda>tp bf w. (None, w\<lparr> fw_tmp := tp # fw_tmp w \<rparr>))"
  "rm (fake_env t a b c d) =
     (\<lambda>tp recursive w.
        if recursive
        then (case d of Some ex \<Rightarrow> (Some ex, w)
              | None \<Rightarrow> (None, w\<lparr> fw_dir := False, fw_tmp := [] \<rparr>))
        else (None, w\<lparr> fw_tmp := removeAll tp (fw_tmp w) \<rparr>))"
  "path_join (fake_env t a b c d) = (\<lambda>dir n. dir @ ''/'' @ n)"
  "sendBackupNotification (fake_env t a b c d) = (\<lambda>m w. w)"
  "date_now (fake_env t a b c d) = fw_clock"
  "pick (fake_env t a b c d) = (\<lambda>n evs w. 0)"
  by (simp_all add: fake_env_def)

lemma test_config_sel:
  "tempDir test_config = ''/tmp/x''"
  "batchSize test_config = Some 2"
  "fileExtensions test_config = [''.mp3'']"
  "cronSchedule test_config = ''0 2 * * *''"
  by (simp_all add: test_config_def)

lemma toStorageFile_sel:
  "name (toStorageFile p it) = item_name it"
  "path (toStorageFile p it) = fullPath p it"
  "isFolder (toStorageFile p it) = False"
  "fsize (toStorageFile p it) =
     (case item_metadata it of
        None \<Rightarrow> 0
      | Some md \<Rightarrow> (case md_size md of None \<Rightarrow> 0 | Some n \<Rightarrow> n))"
  by (simp_all add: toStorageFile_def)

lemma item_sel:
  "item_name (file_item n sz) = n"
  "item_metadata (file_item n sz)
     = Some \<lparr> md_size = Some sz, md_other = [(''mimetype'', ''audio/mpeg'')] \<rparr>"
  "item_name (folder_item n) = n"
  "item_metadata (folder_item n) = None"
  by (simp_all add: file_item_def folder_item_def)

lemma test_file_sel:
  "name (test_file p sz) = p"
  "path (test_file p sz) = p"
  "fsize (test_file p sz) = sz"
  by (simp_all add: test_file_def toStorageFile_sel item_sel fullPath_def)

lemma fresh_world_sel:
  "fw_dest fresh_world = []"
  "fw_tmp fresh_world = []"
  "fw_dir fresh_world = False"
  "fw_clock fresh_world = 0"
  by (simp_all add: fresh_world_def)

lemmas run_eval = ensureTempDir_def listAllFiles_def listStep_def isFolderItem_def keys_count_def
  fullPath_def fake_env_sel item_sel toStorageFile_sel fresh_world_def test_config_sel
  test_file_def Let_def

lemmas transfer_eval = backupFile_def bufferMethod_def tempFileMethod_def flattenPath_def
  backupTask_def isAlreadyExists_def new_run_def cleanupTempDir_def

lemmas batch_eval = processBatch_def settleAll.simps nextTask_def resumeTask_def settleCallback_def
  tempFilePath_def flattenPath_def isAlreadyExists_def js_slice_def js_min_def js_plus_def
  js_less_def to_integer_def new_run_def

lemma isFolderItem_iff:
  "isFolderItem it \<longleftrightarrow>
     (case item_metadata it of
        None \<Rightarrow> True
      | Some md \<Rightarrow> md_size md = None \<or> md_size md = Some 0)"
  by (auto simp: isFolderItem_def keys_count_def split: option.splits)

lemma listAllFiles_example_tree:
  "map_option (\<lambda>(fs, w, evs). (map path fs, map isFolder fs, evs))
     (listAllFiles (fake_env example_tree None None None None) fresh_world)
   = Some ([''c.wav'', ''a/b.mp3''], [False, False], [ListPath [], LogFolder ''a'', ListPath ''a''])"
  by (simp add: listLoop.simps run_eval example_tree_def)

subsection \<open>Batches by position, and the counter of one transfer\<close>

lemma nth_contiguous_batches:
  "j < length (contiguous_batches k xs) \<Longrightarrow>
     contiguous_batches k xs ! j = take k (drop (j * k) xs)"
proof (induction j arbitrary: xs)
  case 0
  then have "\<not> (k = 0 \<or> xs = [])"
    by (subst (asm) contiguous_batches.simps) (simp split: if_splits)
  then have "contiguous_batches k xs = take k xs # contiguous_batches k (drop k xs)"
    by (subst contiguous_batches.simps) simp
  then show ?case by simp
next
  case (Suc j)
  then have ne: "\<not> (k = 0 \<or> xs = [])"
    by (subst (asm) contiguous_batches.simps) (simp split: if_splits)
  then have eq: "contiguous_batches k xs = take k xs # contiguous_batches k (drop k xs)"
    by (subst contiguous_batches.simps) simp
  from Suc.prems have "j < length (contiguous_batches k (drop k xs))"
    by (simp only: eq) simp
  then have "contiguous_batches k (drop k xs) ! j = take k (drop (j * k) (drop k xs))"
    by (rule Suc.IH)
  then show ?case
    by (simp only: eq) (simp add: add.commute)
qed

lemma settleCallback_one:
  "(run_success (settleCallback f r s) = run_success s + 1
      \<and> run_skip (settleCallback f r s) = run_skip s
      \<and> run_error (settleCallback f r s) = run_error s)
   \<or> (run_success (settleCallback f r s) = run_success s
      \<and> run_skip (settleCallback f r s) = run_skip s + 1
      \<and> run_error (settleCallback f r s) = run_error s)
   \<or> (run_success (settleCallback f r s) = run_success s
      \<and> run_skip (settleCallback f r s) = run_skip s
      \<and> run_error (settleCallback f r s) = run_error s + 1)"
  by (simp add: settleCallback_def split: option.splits)

section \<open>The schedule evaluator\<close>

text \<open>
  C6, as the specification words it, fails on the code: the expression
  \<open>*  * * * *\<close> (two spaces after the first field) has exactly five white-space
  separated fields and each of them matches, yet \<open>shouldRunBackup\<close> is false, because
  \<open>split(" ")\<close> cuts at every single space and finds six parts.
\<close>

theorem shouldRunBackup_whitespace_counterexample:
  "ws_fields ''*  * * * *'' = [''*'', ''*'', ''*'', ''*'', ''*'']
   \<and> matchCronField ''*'' 0 0 59 \<and> matchCronField ''*'' 2 0 23 \<and> matchCronField ''*'' 7 1 31
   \<and> matchCronField ''*'' 5 1 12 \<and> matchCronField ''*'' 3 0 6
   \<and> \<not> shouldRunBackup ''*  * * * *''
         \<lparr> getMinutes = 0, getHours = 2, getDate = 7, getMonth = 4, getDay = 3 \<rparr>"
  by (simp add: ws_fields_def js_whitespace_def shouldRunBackup_def matchCronField_def)

text \<open>
  C6 (amended): for every schedule expression and time, \<open>shouldRunBackup\<close> is true iff
  cutting the expression at every single space character gives exactly five parts and
  each part matches its calendar component (minute, hour, day of month, month as
  \<open>getMonth() + 1\<close>, day of week); with any other number of parts the result is false.
\<close>

theorem shouldRunBackup_and:
  "shouldRunBackup e now =
     (case split_on CHR '' '' e of
        [minute, hour, dayOfMonth, month, dayOfWeek] \<Rightarrow>
          matchCronField minute (getMinutes now) 0 59 \<and>
          matchCronField hour (getHours now) 0 23 \<and>
          matchCronField dayOfMonth (getDate now) 1 31 \<and>
          matchCronField month (getMonth now + 1) 1 12 \<and>
          matchCronField dayOfWeek (getDay now) 0 6
      | _ \<Rightarrow> False)
   \<and> (length (split_on CHR '' '' e) \<noteq> 5 \<longrightarrow> \<not> shouldRunBackup e now)"
proof (cases "length (split_on CHR '' '' e) = 5")
  case True
  then obtain a b c d f where "split_on CHR '' '' e = [a, b, c, d, f]"
    using length_five by blast
  then show ?thesis by (simp add: shouldRunBackup_def Let_def)
next
  case False
  then show ?thesis
    by (auto simp: shouldRunBackup_def Let_def split: list.splits)
qed

text \<open>C6, at concrete inputs: a schedule that fires, the same schedule on a day of the
  week outside its range, and an expression of four parts.\<close>

theorem shouldRunBackup_and_witness:
  "shouldRunBackup ''*/15 2 * * 1-5''
     \<lparr> getMinutes = 30, getHours = 2, getDate = 7, getMonth = 4, getDay = 3 \<rparr>
   \<and> \<not> shouldRunBackup ''*/15 2 * * 1-5''
     \<lparr> getMinutes = 30, getHours = 2, getDate = 7, getMonth = 4, getDay = 6 \<rparr>
   \<and> length (split_on CHR '' '' ''0 2 * *'') \<noteq> 5
   \<and> \<not> shouldRunBackup ''0 2 * *''
     \<lparr> getMinutes = 0, getHours = 2, getDate = 7, getMonth = 4, getDay = 3 \<rparr>"
  using shouldRunBackup_and [of "''*/15 2 * * 1-5''"
      "\<lparr> getMinutes = 30, getHours = 2, getDate = 7, getMonth = 4, getDay = 3 \<rparr>"]
    shouldRunBackup_and [of "''*/15 2 * * 1-5''"
      "\<lparr> getMinutes = 30, getHours = 2, getDate = 7, getMonth = 4, getDay = 6 \<rparr>"]
    shouldRunBackup_and [of "''0 2 * *''"
      "\<lparr> getMinutes = 0, getHours = 2, getDate = 7, getMonth = 4, getDay = 3 \<rparr>"]
  by (simp add: matchCronField_def includes_char_def parseInt_def js_whitespace_def dec_digit_def
      smod_int_alt_def)

text \<open>
  C7: for a field \<open>a/b\<close>, the divisibility check \<open>value % b === 0\<close> decides the match
  only when \<open>a\<close> is \<open>*\<close>; with any other \<open>a\<close> the field is accepted and the match is
  decided by the rules that follow (range, list, single value), which read the whole
  field and give no step behaviour.
\<close>

theorem matchCronField_step_only_after_wildcard:
  assumes "CHR ''/'' \<notin> set a" and "CHR ''/'' \<notin> set b"
  shows "matchCronField (a @ ''/'' @ b) v lo hi =
     (if a = ''*''
      then (case parseInt b of None \<Rightarrow> False | Some stepValue \<Rightarrow> stepValue \<noteq> 0 \<and> v smod stepValue = 0)
      else if includes_char (a @ ''/'' @ b) CHR ''-''
      then (case map parseInt (split_on CHR ''-'' (a @ ''/'' @ b)) of
              Some start # Some stop # _ \<Rightarrow> start \<le> v \<and> v \<le> stop
            | _ \<Rightarrow> False)
      else if includes_char (a @ ''/'' @ b) CHR '',''
      then Some v \<in> set (map parseInt (split_on CHR '','' (a @ ''/'' @ b)))
      else parseInt (a @ ''/'' @ b) = Some v)"
proof -
  have sp: "split_on CHR ''/'' (a @ CHR ''/'' # b) = [a, b]"
    using assms by (simp add: split_on_first split_on_no_sep)
  have ne: "a @ CHR ''/'' # b \<noteq> ''*''"
    by (cases a) auto
  show ?thesis
    by (simp add: matchCronField_def ne sp includes_char_def)
qed

text \<open>C7, at concrete inputs: \<open>*/15\<close> matches minute 30 and not minute 5; \<open>5/15\<close>
  matches minute 5 and not minute 30.\<close>

theorem matchCronField_step_only_after_wildcard_witness:
  "CHR ''/'' \<notin> set ''*'' \<and> CHR ''/'' \<notin> set ''5'' \<and> CHR ''/'' \<notin> set ''15''
   \<and> matchCronField ''*/15'' 30 0 59 \<and> \<not> matchCronField ''*/15'' 5 0 59
   \<and> \<not> matchCronField ''5/15'' 30 0 59 \<and> matchCronField ''5/15'' 5 0 59"
  using matchCronField_step_only_after_wildcard [of "''*''" "''15''" 30 0 59]
    matchCronField_step_only_after_wildcard [of "''*''" "''15''" 5 0 59]
    matchCronField_step_only_after_wildcard [of "''5''" "''15''" 30 0 59]
    matchCronField_step_only_after_wildcard [of "''5''" "''15''" 5 0 59]
  by (simp add: includes_char_def parseInt_def js_whitespace_def dec_digit_def smod_int_alt_def)

section \<open>The transfer of one file\<close>

text \<open>
  C4: for every file whose key the destination already has, \<open>backupFile\<close> throws
  \<open>File already exists\<close> right after the probe, which the batch callback counts as
  skipped; the only call to the outside is the probe: no download, no upload, no temp
  file.
\<close>

theorem backupFile_exists_skips:
  assumes "fst (fileExists e (path file) (run_world st))"
  shows "backupFile e config file (run_world st) =
           (Some (Error ''File already exists''), snd (fileExists e (path file) (run_world st)),
            [LogProcessing (path file), FileExists (path file), LogSkip (path file)])
         \<and> backupTask e config file st =
             st\<lparr> run_world := snd (fileExists e (path file) (run_world st)),
                 run_log := run_log st @ [LogProcessing (path file), FileExists (path file),
                                          LogSkip (path file)],
                 run_skip := run_skip st + 1 \<rparr>"
proof -
  have bf: "backupFile e config file (run_world st) =
           (Some (Error ''File already exists''), snd (fileExists e (path file) (run_world st)),
            [LogProcessing (path file), FileExists (path file), LogSkip (path file)])"
    using assms by (auto simp add: backupFile_def Let_def split: prod.splits)
  have "isAlreadyExists (Error ''File already exists'')"
    by (simp add: isAlreadyExists_def)
  then show ?thesis
    using bf by (simp add: backupTask_def)
qed

text \<open>C4, at a concrete input: the destination holds \<open>a.mp3\<close>.\<close>

theorem backupFile_exists_skips_witness:
  "fst (fileExists (fake_env [] None None None None) (path (test_file ''a.mp3'' 10))
          (run_world \<lparr> run_world = fresh_world\<lparr> fw_dest := [''a.mp3''] \<rparr>, run_log = [],
                       run_success = 0, run_skip = 0, run_error = 0 \<rparr>))
   \<and> backupTask (fake_env [] None None None None) test_config (test_file ''a.mp3'' 10)
        \<lparr> run_world = fresh_world\<lparr> fw_dest := [''a.mp3''] \<rparr>, run_log = [],
          run_success = 0, run_skip = 0, run_error = 0 \<rparr>
      = \<lparr> run_world = fresh_world\<lparr> fw_dest := [''a.mp3''] \<rparr>,
          run_log = [LogProcessing ''a.mp3'', FileExists ''a.mp3'', LogSkip ''a.mp3''],
          run_success = 0, run_skip = 1, run_error = 0 \<rparr>"
proof -
  have h: "fst (fileExists (fake_env [] None None None None) (path (test_file ''a.mp3'' 10))
          (run_world \<lparr> run_world = fresh_world\<lparr> fw_dest := [''a.mp3''] \<rparr>, run_log = [],
                       run_success = 0, run_skip = 0, run_error = 0 \<rparr>))"
    by (simp add: run_eval)
  show ?thesis
    using h backupFile_exists_skips [OF h, of test_config]
    by (simp add: run_eval)
qed

text \<open>
  C9: when \<open>backupFile\<close> throws, the batch callback counts the file as skipped exactly
  when the thrown value is an \<open>Error\<close> whose message contains \<open>already exists\<close>, and
  as failed otherwise, whatever step of the transfer threw it.
\<close>

theorem backupTask_classifies_by_message:
  assumes "backupFile e config file (run_world st) = (Some ex, w', evs)"
  shows "(if (\<exists>m. ex = Error m \<and> includes_str m ''already exists'')
          then run_skip (backupTask e config file st) = run_skip st + 1
             \<and> run_error (backupTask e config file st) = run_error st
          else run_skip (backupTask e config file st) = run_skip st
             \<and> run_error (backupTask e config file st) = run_error st + 1)
         \<and> run_success (backupTask e config file st) = run_success st"
  using assms by (cases ex) (auto simp: backupTask_def isAlreadyExists_def)

text \<open>C9, at a concrete input: the upload of the temp file fails at the destination
  with a message that contains \<open>already exists\<close>, and the file is counted as skipped.\<close>

theorem backupTask_classifies_by_message_witness:
  "backupFile (fake_env [] None None (Some (Error ''PutObject: key already exists'')) None)
       test_config (test_file ''big.wav'' 200000000) fresh_world
     = (Some (Error ''PutObject: key already exists''), fresh_world,
        [LogProcessing ''big.wav'', FileExists ''big.wav'', LogTempDownload, Download ''big.wav'',
         WriteFile ''/tmp/x/big.wav'' ''bytes'', LogTempUpload,
         UploadFile ''/tmp/x/big.wav'' ''big.wav'' ''application/octet-stream'',
         RmFile ''/tmp/x/big.wav''])
   \<and> run_skip (backupTask (fake_env [] None None (Some (Error ''PutObject: key already exists'')) None)
        test_config (test_file ''big.wav'' 200000000)
        \<lparr> run_world = fresh_world, run_log = [], run_success = 0, run_skip = 0, run_error = 0 \<rparr>) = 1
   \<and> run_error (backupTask (fake_env [] None None (Some (Error ''PutObject: key already exists'')) None)
        test_config (test_file ''big.wav'' 200000000)
        \<lparr> run_world = fresh_world, run_log = [], run_success = 0, run_skip = 0, run_error = 0 \<rparr>) = 0"
proof -
  have h: "backupFile (fake_env [] None None (Some (Error ''PutObject: key already exists'')) None)
       test_config (test_file ''big.wav'' 200000000)
       (run_world \<lparr> run_world = fresh_world, run_log = [], run_success = 0, run_skip = 0,
                    run_error = 0 \<rparr>)
     = (Some (Error ''PutObject: key already exists''), fresh_world,
        [LogProcessing ''big.wav'', FileExists ''big.wav'', LogTempDownload, Download ''big.wav'',
         WriteFile ''/tmp/x/big.wav'' ''bytes'', LogTempUpload,
         UploadFile ''/tmp/x/big.wav'' ''big.wav'' ''application/octet-stream'',
         RmFile ''/tmp/x/big.wav''])"
    by (simp add: transfer_eval run_eval)
  show ?thesis
    using h backupTask_classifies_by_message [OF h]
    by simp
qed




section \<open>Enumeration\<close>

text \<open>
  C5, evaluated at the input where the code departs from it: a listed entry whose
  metadata has a size field with value \<open>0\<close> (a file of zero bytes) is classified as a
  folder, because \<open>!item.metadata.size\<close> is true for it. The entry is queued for
  listing under its path and is missing from the returned files.
\<close>

theorem listAllFiles_zero_size_file:
  "item_metadata (file_item ''empty.mp3'' 0)
     = Some \<lparr> md_size = Some 0, md_other = [(''mimetype'', ''audio/mpeg'')] \<rparr>
   \<and> isFolderItem (file_item ''empty.mp3'' 0)
   \<and> listAllFiles (fake_env [([], [file_item ''empty.mp3'' 0])] None None None None) fresh_world
     = Some ([], fresh_world, [ListPath [], LogFolder ''empty.mp3'', ListPath ''empty.mp3''])"
  by (simp add: listLoop.simps run_eval)

section \<open>The run\<close>

text \<open>
  C2, as the specification words it, fails on the code: when the enumeration finds no
  file, \<open>backup\<close> returns before the counters exist; no metrics are built and nothing
  is handed to the notifier, so the run has no \<open>Notify\<close> event and no RunMetrics.
\<close>

theorem backup_no_files_counterexample:
  "backup (fake_env [([], [folder_item ''a''])] None None None None) test_config fresh_world
     = Some (None, fresh_world\<lparr> fw_dir := True \<rparr>,
             [MkDir ''/tmp/x'', LogCreatedDir ''/tmp/x'', ListPath [], LogFolder ''a'',
              ListPath ''a'', LogNoFiles])"
  by (simp add: backup_def listLoop.simps run_eval)

text \<open>
  C2 (amended): for every run in which the enumeration returns zero objects, the run
  ends at once and without error: its events are the creation of the staging directory,
  those of the enumeration and the line \<open>No files found to backup\<close>, so no batch is
  executed, nothing is transferred, and no metrics are built or handed to the notifier.
\<close>

theorem backup_no_files:
  assumes "ensureTempDir e config w = (None, w1, ev1)"
    and "listAllFiles e w1 = Some ([], w2, ev2)"
  shows "backup e config w = Some (None, w2, ev1 @ ev2 @ [LogNoFiles])
       \<and> list_all is_prelude_event (ev1 @ ev2 @ [LogNoFiles])"
proof -
  have "list_all is_scan_event ev2" using assms(2) by (rule listAllFiles_log)
  then have "list_all is_prelude_event ev2"
    by (simp add: list_all_iff scan_is_prelude)
  moreover have "list_all is_prelude_event ev1" using assms(1) by (rule ensureTempDir_log)
  moreover have "backup e config w = Some (None, w2, ev1 @ ev2 @ [LogNoFiles])"
    using assms by (simp add: backup_def)
  ultimately show ?thesis by simp
qed

text \<open>C2 (amended), at a concrete input: an empty bucket.\<close>

theorem backup_no_files_witness:
  "ensureTempDir (fake_env [] None None None None) test_config fresh_world
     = (None, fresh_world\<lparr> fw_dir := True \<rparr>, [MkDir ''/tmp/x'', LogCreatedDir ''/tmp/x''])
   \<and> listAllFiles (fake_env [] None None None None) (fresh_world\<lparr> fw_dir := True \<rparr>)
     = Some ([], fresh_world\<lparr> fw_dir := True \<rparr>, [ListPath []])
   \<and> backup (fake_env [] None None None None) test_config fresh_world
     = Some (None, fresh_world\<lparr> fw_dir := True \<rparr>,
             [MkDir ''/tmp/x'', LogCreatedDir ''/tmp/x'', ListPath [], LogNoFiles])"
proof -
  have h1: "ensureTempDir (fake_env [] None None None None) test_config fresh_world
     = (None, fresh_world\<lparr> fw_dir := True \<rparr>, [MkDir ''/tmp/x'', LogCreatedDir ''/tmp/x''])"
    by (simp add: run_eval)
  have h2: "listAllFiles (fake_env [] None None None None) (fresh_world\<lparr> fw_dir := True \<rparr>)
     = Some ([], fresh_world\<lparr> fw_dir := True \<rparr>, [ListPath []])"
    by (simp add: listLoop.simps run_eval)
  show ?thesis
    using h1 h2 backup_no_files [OF h1 h2] by simp
qed

text \<open>
  C3, as the specification words it, fails on the code: \<open>cleanupTempDir\<close> is called on
  one path only, after the last batch. A run that fails (here \<open>mkdir\<close> throws) issues
  no removal, and neither does a run whose enumeration finds no file, which leaves the
  staging directory in place.
\<close>

theorem backup_cleanup_counterexample:
  "backup (fake_env [] (Some (Error ''EACCES'')) None None None) test_config fresh_world
     = Some (Some (Error ''EACCES''), fresh_world,
             [MkDir ''/tmp/x'', LogBackupFailed (Error ''EACCES'')])
   \<and> backup (fake_env [] None None None None) test_config (fresh_world\<lparr> fw_dir := True \<rparr>)
     = Some (None, fresh_world\<lparr> fw_dir := True \<rparr>, [ListPath [], LogNoFiles])"
  by (simp add: backup_def listLoop.simps run_eval)

text \<open>
  C3 (amended): for every run whose enumeration returns at least one object (with a
  positive batch size), once the last batch has settled the staging directory is
  removed recursively, before the metrics are handed to the notifier; a failure of that
  removal is printed as a warning and the run still ends without error.
\<close>

theorem backup_cleanup:
  assumes "ensureTempDir e config w = (None, w1, ev1)"
    and "listAllFiles e w1 = Some (files, w2, ev2)"
    and "files \<noteq> []"
    and "batchSize config = Some k"
    and "0 < k"
  shows "\<exists>st m. batchLoop e config files (Some 0) (new_run w2) = Some st
       \<and> backup e config w =
           Some (None, sendBackupNotification e m (snd (rm e (tempDir config) True (run_world st))),
                 ev1 @ ev2 @ run_log st
                 @ [RmDir (tempDir config),
                    (case fst (rm e (tempDir config) True (run_world st)) of
                       None \<Rightarrow> LogCleaned (tempDir config)
                     | Some ex \<Rightarrow> WarnCleanup ex),
                    Notify m])"
proof -
  obtain st where st: "batchLoop e config files (Some 0) (new_run w2) = Some st"
    using batchLoop_from [OF assms(4,5), of e files 0 "new_run w2"] by simp
  obtain r w3 where rm: "rm e (tempDir config) True (run_world st) = (r, w3)"
    by (cases "rm e (tempDir config) True (run_world st)")
  show ?thesis
    using assms(1,2,3) st rm
    by (cases r) (simp_all add: backup_def cleanupTempDir_def Let_def new_run_def)
qed

text \<open>C3 (amended), at a concrete input: one file is copied, the recursive removal
  throws \<open>EBUSY\<close>, and the run ends without error after the warning.\<close>

theorem backup_cleanup_witness:
  "ensureTempDir (fake_env [([], [file_item ''c.wav'' 20])] None None None (Some (Error ''EBUSY'')))
      test_config fresh_world
     = (None, fresh_world\<lparr> fw_dir := True \<rparr>, [MkDir ''/tmp/x'', LogCreatedDir ''/tmp/x''])
   \<and> map_option fst (listAllFiles
        (fake_env [([], [file_item ''c.wav'' 20])] None None None (Some (Error ''EBUSY'')))
        (fresh_world\<lparr> fw_dir := True \<rparr>)) = Some [test_file ''c.wav'' 20]
   \<and> [test_file ''c.wav'' 20] \<noteq> []
   \<and> batchSize test_config = Some 2
   \<and> (0 :: int) < 2
   \<and> map_option (\<lambda>(r, w, evs). (r, drop 10 evs))
        (backup (fake_env [([], [file_item ''c.wav'' 20])] None None None (Some (Error ''EBUSY'')))
           test_config fresh_world)
     = Some (None,
             [RmDir ''/tmp/x'', WarnCleanup (Error ''EBUSY''),
              Notify \<lparr> totalFiles = 1, successCount = 1, skipCount = 0, errorCount = 0,
                       duration = 0, totalSize = 20, startTime = 0, endTime = 0 \<rparr>])"
proof -
  let ?e = "fake_env [([], [file_item ''c.wav'' 20])] None None None (Some (Error ''EBUSY''))"
  have h1: "ensureTempDir ?e test_config fresh_world
     = (None, fresh_world\<lparr> fw_dir := True \<rparr>, [MkDir ''/tmp/x'', LogCreatedDir ''/tmp/x''])"
    by (simp add: run_eval)
  have h2: "listAllFiles ?e (fresh_world\<lparr> fw_dir := True \<rparr>)
     = Some ([test_file ''c.wav'' 20], fresh_world\<lparr> fw_dir := True \<rparr>, [ListPath []])"
    by (simp add: listLoop.simps run_eval)
  have h3: "[test_file ''c.wav'' 20] \<noteq> []" by simp
  have h4: "batchSize test_config = Some 2" by (simp add: test_config_sel)
  have h5: "(0 :: int) < 2" by simp
  have lp: "\<exists>w lg. batchLoop ?e test_config [test_file ''c.wav'' 20] (Some 0)
                  (new_run (fresh_world\<lparr> fw_dir := True \<rparr>))
          = Some \<lparr> run_world = w, run_log = lg, run_success = 1, run_skip = 0, run_error = 0 \<rparr>
        \<and> fw_clock w = 0 \<and> length lg = 7"
    by (simp add: batchLoop.simps batch_eval run_eval)
  then obtain w lg where lp: "batchLoop ?e test_config [test_file ''c.wav'' 20] (Some 0)
                  (new_run (fresh_world\<lparr> fw_dir := True \<rparr>))
          = Some \<lparr> run_world = w, run_log = lg, run_success = 1, run_skip = 0, run_error = 0 \<rparr>"
    and clock: "fw_clock w = 0" and lg: "length lg = 7"
    by blast
  have v: "map_option (\<lambda>(r, w, evs). (r, drop 10 evs)) (backup ?e test_config fresh_world)
     = Some (None,
             [RmDir ''/tmp/x'', WarnCleanup (Error ''EBUSY''),
              Notify \<lparr> totalFiles = 1, successCount = 1, skipCount = 0, errorCount = 0,
                       duration = 0, totalSize = 20, startTime = 0, endTime = 0 \<rparr>])"
    by (simp add: backup_def h1 h2 lp clock lg cleanupTempDir_def fake_env_sel test_config_sel
        test_file_sel fresh_world_sel Let_def)
  show ?thesis
    using h1 h2 h3 h4 h5 v backup_cleanup [OF h1 h2 h3 h4 h5] by simp
qed

text \<open>
  C8, as the specification words it, fails on the code: the batch size is
  \<open>parseInt(process.env.BATCH_SIZE || "5", 10)\<close> and is not checked. With
  \<open>BATCH_SIZE=abc\<close> it is \<open>NaN\<close>: the loop runs one empty batch and ends, no file is
  transferred, and the metrics have \<open>totalFiles = 3\<close> with all three counters \<open>0\<close>.
  With \<open>BATCH_SIZE=0\<close> the loop never ends, so the run has no end and no metrics.
\<close>

theorem batchLoop_batch_size_counterexample:
  "loadConfig_batchSize (Some ''abc'') = None
   \<and> backup (fake_env three_files None None None None)
        (test_config\<lparr> batchSize := loadConfig_batchSize (Some ''abc'') \<rparr>) fresh_world
     = Some (None, fresh_world,
             [MkDir ''/tmp/x'', LogCreatedDir ''/tmp/x'', ListPath [], LogBatch [],
              RmDir ''/tmp/x'', LogCleaned ''/tmp/x'',
              Notify \<lparr> totalFiles = 3, successCount = 0, skipCount = 0, errorCount = 0,
                       duration = 0, totalSize = 6, startTime = 0, endTime = 0 \<rparr>])
   \<and> loadConfig_batchSize (Some ''0'') = Some 0
   \<and> backup (fake_env three_files None None None None)
        (test_config\<lparr> batchSize := loadConfig_batchSize (Some ''0'') \<rparr>) fresh_world = None"
proof -
  let ?e = "fake_env three_files None None None None"
  let ?fs = "[test_file ''a'' 1, test_file ''b'' 2, test_file ''c'' 3]"
  let ?w1 = "fresh_world\<lparr> fw_dir := True \<rparr>"
  have nan: "loadConfig_batchSize (Some ''abc'') = None"
    by (simp add: loadConfig_batchSize_def parseInt10_def js_whitespace_def dec_digit_def)
  have zero: "loadConfig_batchSize (Some ''0'') = Some 0"
    by (simp add: loadConfig_batchSize_def parseInt10_def js_whitespace_def dec_digit_def)
  have h1: "ensureTempDir ?e c fresh_world
       = (None, ?w1, [MkDir (tempDir c), LogCreatedDir (tempDir c)])" for c
    by (simp add: ensureTempDir_def fake_env_sel fresh_world_def)
  have h2: "listAllFiles ?e ?w1 = Some (?fs, ?w1, [ListPath []])"
    by (simp add: listLoop.simps run_eval three_files_def)
  have "batchLoop ?e (test_config\<lparr> batchSize := None \<rparr>) ?fs (Some 0) (new_run ?w1)
              = Some ((new_run ?w1)\<lparr> run_log := run_log (new_run ?w1) @ [LogBatch []] \<rparr>)"
    by (rule batchLoop_NaN) simp_all
  then have l1: "batchLoop ?e (test_config\<lparr> batchSize := None \<rparr>) ?fs (Some 0) (new_run ?w1)
              = Some \<lparr> run_world = ?w1, run_log = [LogBatch []],
                       run_success = 0, run_skip = 0, run_error = 0 \<rparr>"
    by (simp add: new_run_def)
  have l2: "batchLoop ?e (test_config\<lparr> batchSize := Some 0 \<rparr>) ?fs (Some 0) (new_run ?w1) = None"
    by (rule batchLoop_never_ends [where k = 0]) simp_all
  have r1: "backup ?e (test_config\<lparr> batchSize := None \<rparr>) fresh_world
     = Some (None, fresh_world,
             [MkDir ''/tmp/x'', LogCreatedDir ''/tmp/x'', ListPath [], LogBatch [],
              RmDir ''/tmp/x'', LogCleaned ''/tmp/x'',
              Notify \<lparr> totalFiles = 3, successCount = 0, skipCount = 0, errorCount = 0,
                       duration = 0, totalSize = 6, startTime = 0, endTime = 0 \<rparr>])"
    by (simp add: backup_def h1 h2 l1 cleanupTempDir_def fake_env_sel test_config_sel
        test_file_sel fresh_world_sel Let_def)
  have r2: "backup ?e (test_config\<lparr> batchSize := Some 0 \<rparr>) fresh_world = None"
    by (simp add: backup_def h1 h2 l2)
  show ?thesis
    using nan zero r1 r2 by simp
qed

text \<open>
  C8 (amended): for every list of \<open>N\<close> files and every batch size \<open>k\<close> that is a
  positive integer, the loop ends and has processed, strictly in order, \<open>ceil(N/k)\<close>
  contiguous batches that together are the input list: batch \<open>j\<close> is the files from
  position \<open>j * k\<close> on, at most \<open>k\<close> of them, it is not empty, and every batch but the
  last has width \<open>k\<close>. When a transfer settles exactly one of the three counters grows
  by one, every transfer of a batch settles once whatever the order of the turns, so
  after the loop the counters have grown by \<open>N\<close> in total, and the metrics handed to
  the notifier at the end of the run satisfy
  \<open>totalFiles = successCount + skipCount + errorCount\<close>.
\<close>

theorem batchLoop_batches_and_counts:
  assumes "batchSize config = Some k" and "0 < k"
  shows "batchLoop e config files (Some 0) st
           = Some (foldl (\<lambda>s b. processBatch e config b s) st
                     (contiguous_batches (nat k) files))
     \<and> concat (contiguous_batches (nat k) files) = files
     \<and> int (length (contiguous_batches (nat k) files)) = (int (length files) + k - 1) div k
     \<and> (\<forall>j < length (contiguous_batches (nat k) files).
          contiguous_batches (nat k) files ! j = take (nat k) (drop (j * nat k) files)
          \<and> contiguous_batches (nat k) files ! j \<noteq> []
          \<and> int (length (contiguous_batches (nat k) files ! j)) \<le> k
          \<and> (Suc j < length (contiguous_batches (nat k) files)
               \<longrightarrow> int (length (contiguous_batches (nat k) files ! j)) = k))
     \<and> (\<forall>f r s.
          (run_success (settleCallback f r s) = run_success s + 1
             \<and> run_skip (settleCallback f r s) = run_skip s
             \<and> run_error (settleCallback f r s) = run_error s)
          \<or> (run_success (settleCallback f r s) = run_success s
             \<and> run_skip (settleCallback f r s) = run_skip s + 1
             \<and> run_error (settleCallback f r s) = run_error s)
          \<or> (run_success (settleCallback f r s) = run_success s
             \<and> run_skip (settleCallback f r s) = run_skip s
             \<and> run_error (settleCallback f r s) = run_error s + 1))
     \<and> (\<forall>batch s.
          run_success (processBatch e config batch s) + run_skip (processBatch e config batch s)
            + run_error (processBatch e config batch s)
          = run_success s + run_skip s + run_error s + length batch)
     \<and> (\<forall>st'. batchLoop e config files (Some 0) st = Some st'
          \<longrightarrow> run_success st' + run_skip st' + run_error st'
                = run_success st + run_skip st + run_error st + length files)
     \<and> (ensureTempDir e config w = (None, w1, ev1)
          \<and> listAllFiles e w1 = Some (files, w2, ev2) \<and> files \<noteq> []
        \<longrightarrow> (\<exists>w4 evs m. backup e config w = Some (None, w4, evs @ [Notify m])
               \<and> totalFiles m = length files
               \<and> totalFiles m = successCount m + skipCount m + errorCount m))"
proof -
  let ?k = "nat k"
  let ?bs = "contiguous_batches ?k files"
  have k: "0 < ?k" using assms(2) by simp
  have run: "batchLoop e config files (Some 0) s0
               = Some (foldl (\<lambda>s b. processBatch e config b s) s0 ?bs)" for s0 :: "'a run"
    using batchLoop_from [OF assms, of e files 0 s0] by simp
  have cover: "concat ?bs = files" using k by (rule concat_contiguous_batches)
  have "length ?bs = (length files + ?k - 1) div ?k" using k by (rule length_contiguous_batches)
  then have "int (length ?bs) = int ((length files + ?k - 1) div ?k)" by simp
  also have "\<dots> = int (length files + ?k - 1) div int ?k" by (simp add: zdiv_int)
  also have "int (length files + ?k - 1) = int (length files) + k - 1"
    using assms(2) by (simp add: of_nat_diff)
  finally have count: "int (length ?bs) = (int (length files) + k - 1) div k"
    using assms(2) by simp
  have each: "\<forall>j < length ?bs.
          ?bs ! j = take ?k (drop (j * ?k) files)
          \<and> ?bs ! j \<noteq> []
          \<and> int (length (?bs ! j)) \<le> k
          \<and> (Suc j < length ?bs \<longrightarrow> int (length (?bs ! j)) = k)"
  proof (intro allI impI)
    fix j assume j: "j < length ?bs"
    then have "?bs ! j \<in> set ?bs" by simp
    then have w: "?bs ! j \<noteq> [] \<and> length (?bs ! j) \<le> ?k" by (rule width_contiguous_batches)
    have f: "Suc j < length ?bs \<longrightarrow> int (length (?bs ! j)) = k"
      using full_contiguous_batches [of j ?k files] assms(2) by auto
    have n: "?bs ! j = take ?k (drop (j * ?k) files)"
      using j by (rule nth_contiguous_batches)
    from w have "int (length (?bs ! j)) \<le> k" using assms(2) by linarith
    with w f n show "?bs ! j = take ?k (drop (j * ?k) files)
          \<and> ?bs ! j \<noteq> []
          \<and> int (length (?bs ! j)) \<le> k
          \<and> (Suc j < length ?bs \<longrightarrow> int (length (?bs ! j)) = k)"
      by blast
  qed
  have one: "\<forall>f r s.
          (run_success (settleCallback f r s) = run_success s + 1
             \<and> run_skip (settleCallback f r s) = run_skip s
             \<and> run_error (settleCallback f r s) = run_error s)
          \<or> (run_success (settleCallback f r s) = run_success s
             \<and> run_skip (settleCallback f r s) = run_skip s + 1
             \<and> run_error (settleCallback f r s) = run_error s)
          \<or> (run_success (settleCallback f r s) = run_success s
             \<and> run_skip (settleCallback f r s) = run_skip s
             \<and> run_error (settleCallback f r s) = run_error s + 1)"
    using settleCallback_one by blast
  have batch: "\<forall>batch s.
          run_success (processBatch e config batch s) + run_skip (processBatch e config batch s)
            + run_error (processBatch e config batch s)
          = run_success s + run_skip s + run_error s + length batch"
    using processBatch_counted [of e config] by (simp add: counted_def)
  have sum: "run_success st' + run_skip st' + run_error st'
           = run_success s0 + run_skip s0 + run_error s0 + length files"
    if "batchLoop e config files (Some 0) s0 = Some st'" for s0 st' :: "'a run"
  proof -
    from that have "st' = foldl (\<lambda>s b. processBatch e config b s) s0 ?bs"
      by (simp add: run)
    then show ?thesis
      using foldl_processBatch_counted [of e config s0 ?bs] cover by (simp add: counted_def)
  qed
  have metrics: "\<exists>w4 evs m. backup e config w = Some (None, w4, evs @ [Notify m])
               \<and> totalFiles m = length files
               \<and> totalFiles m = successCount m + skipCount m + errorCount m"
    if en: "ensureTempDir e config w = (None, w1, ev1)"
      and ls: "listAllFiles e w1 = Some (files, w2, ev2)" and ne: "files \<noteq> []"
  proof -
    obtain st' where lp: "batchLoop e config files (Some 0) (new_run w2) = Some st'"
      using run [of "new_run w2"] by simp
    have total: "length files = run_success st' + run_skip st' + run_error st'"
      using sum [OF lp] by (simp add: new_run_def)
    obtain w3 ev3 where cl: "cleanupTempDir e config (run_world st') = (w3, ev3)"
      by (cases "cleanupTempDir e config (run_world st')")
    let ?m = "\<lparr> totalFiles = length files, successCount = run_success st',
                skipCount = run_skip st', errorCount = run_error st',
                duration = (date_now e w3 - date_now e w + 500) div 1000,
                totalSize = sum_list (map fsize files),
                startTime = date_now e w, endTime = date_now e w3 \<rparr>"
    have "backup e config w =
            Some (None, sendBackupNotification e ?m w3,
                  (ev1 @ ev2 @ run_log st' @ ev3) @ [Notify ?m])"
      using en ls ne lp cl by (simp add: backup_def Let_def)
    moreover have "totalFiles ?m = length files" by simp
    moreover have "totalFiles ?m = successCount ?m + skipCount ?m + errorCount ?m"
      using total by simp
    ultimately show ?thesis by blast
  qed
  show ?thesis
    using run [of st] cover count each one batch sum [of st] metrics by blast
qed

text \<open>C8 (amended), at a concrete input: three files, batch size 2, the second file
  already at the destination, and in the first batch the probe of the second file
  completes before that of the first.\<close>

theorem batchLoop_batches_and_counts_witness:
  "batchSize test_config = Some 2
   \<and> (0 :: int) < 2
   \<and> ensureTempDir ((fake_env three_files None None None None)\<lparr> pick := second_first \<rparr>) test_config
         (fresh_world\<lparr> fw_dest := [''b''] \<rparr>)
       = (None, fresh_world\<lparr> fw_dest := [''b''], fw_dir := True \<rparr>,
          [MkDir ''/tmp/x'', LogCreatedDir ''/tmp/x''])
   \<and> listAllFiles ((fake_env three_files None None None None)\<lparr> pick := second_first \<rparr>)
         (fresh_world\<lparr> fw_dest := [''b''], fw_dir := True \<rparr>)
       = Some ([test_file ''a'' 1, test_file ''b'' 2, test_file ''c'' 3],
               fresh_world\<lparr> fw_dest := [''b''], fw_dir := True \<rparr>, [ListPath []])
   \<and> [test_file ''a'' 1, test_file ''b'' 2, test_file ''c'' 3] \<noteq> []
   \<and> contiguous_batches 2 [test_file ''a'' 1, test_file ''b'' 2, test_file ''c'' 3]
       = [[test_file ''a'' 1, test_file ''b'' 2], [test_file ''c'' 3]]
   \<and> batchLoop ((fake_env three_files None None None None)\<lparr> pick := second_first \<rparr>) test_config
          [test_file ''a'' 1, test_file ''b'' 2, test_file ''c'' 3] (Some 0)
          (new_run (fresh_world\<lparr> fw_dest := [''b''], fw_dir := True \<rparr>))
     = Some \<lparr> run_world = fresh_world\<lparr> fw_dest := [''c'', ''a'', ''b''], fw_dir := True \<rparr>,
              run_log =
                [LogBatch [test_file ''a'' 1, test_file ''b'' 2],
                 LogProcessing ''a'', LogProcessing ''b'',
                 FileExists ''b'', LogSkip ''b'',
                 FileExists ''a'', LogBufferDownload, Download ''a'', LogBufferUpload,
                 UploadBuffer ''bytes'' ''a'' ''application/octet-stream'',
                 LogBatch [test_file ''c'' 3],
                 LogProcessing ''c'',
                 FileExists ''c'', LogBufferDownload, Download ''c'', LogBufferUpload,
                 UploadBuffer ''bytes'' ''c'' ''application/octet-stream''],
              run_success = 2, run_skip = 1, run_error = 0 \<rparr>
   \<and> map_option (\<lambda>(r, w, evs). (r, last evs))
        (backup ((fake_env three_files None None None None)\<lparr> pick := second_first \<rparr>) test_config
           (fresh_world\<lparr> fw_dest := [''b''] \<rparr>))
     = Some (None,
             Notify \<lparr> totalFiles = 3, successCount = 2, skipCount = 1, errorCount = 0,
                      duration = 0, totalSize = 6, startTime = 0, endTime = 0 \<rparr>)"
proof -
  let ?e = "(fake_env three_files None None None None)\<lparr> pick := second_first \<rparr>"
  let ?fs = "[test_file ''a'' 1, test_file ''b'' 2, test_file ''c'' 3]"
  let ?w1 = "fresh_world\<lparr> fw_dest := [''b''], fw_dir := True \<rparr>"
  let ?lg = "[LogBatch [test_file ''a'' 1, test_file ''b'' 2],
                 LogProcessing ''a'', LogProcessing ''b'',
                 FileExists ''b'', LogSkip ''b'',
                 FileExists ''a'', LogBufferDownload, Download ''a'', LogBufferUpload,
                 UploadBuffer ''bytes'' ''a'' ''application/octet-stream'',
                 LogBatch [test_file ''c'' 3],
                 LogProcessing ''c'',
                 FileExists ''c'', LogBufferDownload, Download ''c'', LogBufferUpload,
                 UploadBuffer ''bytes'' ''c'' ''application/octet-stream'']"
  have h: "batchSize test_config = Some 2" by (simp add: test_config_sel)
  have h0: "(0 :: int) < 2" by simp
  have h1: "ensureTempDir ?e test_config (fresh_world\<lparr> fw_dest := [''b''] \<rparr>)
       = (None, ?w1, [MkDir ''/tmp/x'', LogCreatedDir ''/tmp/x''])"
    by (simp add: run_eval)
  have h2: "listAllFiles ?e ?w1 = Some (?fs, ?w1, [ListPath []])"
    by (simp add: listLoop.simps run_eval three_files_def)
  have h3: "?fs \<noteq> []" by simp
  have cb: "contiguous_batches 2 ?fs
       = [[test_file ''a'' 1, test_file ''b'' 2], [test_file ''c'' 3]]"
    by (simp add: contiguous_batches.simps)
  have fold: "foldl (\<lambda>s b. processBatch ?e test_config b s) (new_run ?w1)
                [[test_file ''a'' 1, test_file ''b'' 2], [test_file ''c'' 3]]
     = \<lparr> run_world = fresh_world\<lparr> fw_dest := [''c'', ''a'', ''b''], fw_dir := True \<rparr>,
         run_log = ?lg, run_success = 2, run_skip = 1, run_error = 0 \<rparr>"
    by (simp add: batch_eval run_eval second_first_def)
  have "batchLoop ?e test_config ?fs (Some 0) (new_run ?w1)
          = Some (foldl (\<lambda>s b. processBatch ?e test_config b s) (new_run ?w1)
                    (contiguous_batches (nat 2) ?fs))"
    using batchLoop_batches_and_counts [OF h h0] by (rule conjunct1)
  then have lp: "batchLoop ?e test_config ?fs (Some 0) (new_run ?w1)
     = Some \<lparr> run_world = fresh_world\<lparr> fw_dest := [''c'', ''a'', ''b''], fw_dir := True \<rparr>,
              run_log = ?lg, run_success = 2, run_skip = 1, run_error = 0 \<rparr>"
    by (simp only: nat_numeral cb fold)
  have run: "map_option (\<lambda>(r, w, evs). (r, last evs))
        (backup ?e test_config (fresh_world\<lparr> fw_dest := [''b''] \<rparr>))
     = Some (None,
             Notify \<lparr> totalFiles = 3, successCount = 2, skipCount = 1, errorCount = 0,
                      duration = 0, totalSize = 6, startTime = 0, endTime = 0 \<rparr>)"
    by (simp add: backup_def h1 h2 lp cleanupTempDir_def fake_env_sel test_config_sel
        test_file_sel fresh_world_sel Let_def)
  show ?thesis
    using h h0 h1 h2 h3 cb lp run by simp
qed

text \<open>
  C10: the configured list \<open>fileExtensions\<close> has no effect. Two configurations that
  differ only in it give the same enumeration, the same run (result, world and events)
  and the same schedule decision: no file is filtered by its extension.
\<close>

theorem fileExtensions_unused:
  "StorageBackup_backup connect (config\<lparr> fileExtensions := exts \<rparr>) w
     = StorageBackup_backup connect config w
   \<and> listAllFiles (connect (supabase (config\<lparr> fileExtensions := exts \<rparr>))
                      (s3 (config\<lparr> fileExtensions := exts \<rparr>))
                      (slackWebhookUrl (config\<lparr> fileExtensions := exts \<rparr>))) w
     = listAllFiles (connect (supabase config) (s3 config) (slackWebhookUrl config)) w
   \<and> shouldRunBackup (cronSchedule (config\<lparr> fileExtensions := exts \<rparr>)) now
     = shouldRunBackup (cronSchedule config) now"
proof -
  have "backup e (config\<lparr> fileExtensions := exts \<rparr>) w = backup e config w" for e :: "'a env"
    by (rule backup_config) simp_all
  then show ?thesis by (simp add: StorageBackup_backup_def)
qed

text \<open>C10, at a concrete input: with the allow-list \<open>.mp3\<close>, and with the allow-list
  \<open>.txt\<close>, the file \<open>c.wav\<close> is copied.\<close>

theorem fileExtensions_unused_witness:
  "fileExtensions test_config = [''.mp3'']
   \<and> map_option (\<lambda>(r, w, evs). (r, fw_dest w))
        (StorageBackup_backup (\<lambda>_ _ _. fake_env [([], [file_item ''c.wav'' 20])] None None None None)
           test_config fresh_world)
     = Some (None, [''c.wav''])
   \<and> map_option (\<lambda>(r, w, evs). (r, fw_dest w))
        (StorageBackup_backup (\<lambda>_ _ _. fake_env [([], [file_item ''c.wav'' 20])] None None None None)
           (test_config\<lparr> fileExtensions := [''.txt''] \<rparr>) fresh_world)
     = Some (None, [''c.wav''])"
proof -
  let ?conn = "\<lambda>(_ :: SupabaseConfig) (_ :: S3Config) (_ :: string option).
                 fake_env [([], [file_item ''c.wav'' 20])] None None None None"
  have exts: "fileExtensions test_config = [''.mp3'']"
    by (simp add: test_config_def)
  let ?e = "fake_env [([], [file_item ''c.wav'' 20])] None None None None"
  have h1: "ensureTempDir ?e c fresh_world
     = (None, fresh_world\<lparr> fw_dir := True \<rparr>, [MkDir (tempDir c), LogCreatedDir (tempDir c)])"
    for c
    by (simp add: ensureTempDir_def fake_env_sel fresh_world_sel)
  have h2: "listAllFiles ?e (fresh_world\<lparr> fw_dir := True \<rparr>)
     = Some ([test_file ''c.wav'' 20], fresh_world\<lparr> fw_dir := True \<rparr>, [ListPath []])"
    by (simp add: listLoop.simps run_eval)
  have "\<exists>lg. batchLoop ?e test_config [test_file ''c.wav'' 20] (Some 0)
                  (new_run (fresh_world\<lparr> fw_dir := True \<rparr>))
          = Some \<lparr> run_world = fresh_world\<lparr> fw_dest := [''c.wav''], fw_dir := True \<rparr>,
                   run_log = lg, run_success = 1, run_skip = 0, run_error = 0 \<rparr>"
    by (simp add: batchLoop.simps batch_eval run_eval)
  then obtain lg where lp: "batchLoop ?e test_config [test_file ''c.wav'' 20] (Some 0)
                  (new_run (fresh_world\<lparr> fw_dir := True \<rparr>))
          = Some \<lparr> run_world = fresh_world\<lparr> fw_dest := [''c.wav''], fw_dir := True \<rparr>,
                   run_log = lg, run_success = 1, run_skip = 0, run_error = 0 \<rparr>"
    by blast
  have base: "map_option (\<lambda>(r, w, evs). (r, fw_dest w))
        (StorageBackup_backup ?conn test_config fresh_world) = Some (None, [''c.wav''])"
    by (simp add: StorageBackup_backup_def backup_def h1 h2 lp cleanupTempDir_def fake_env_sel
        test_config_sel test_file_sel fresh_world_sel Let_def)
  have same: "StorageBackup_backup ?conn (test_config\<lparr> fileExtensions := [''.txt''] \<rparr>) fresh_world
                = StorageBackup_backup ?conn test_config fresh_world"
    using fileExtensions_unused [where connect = ?conn and config = test_config
        and exts = "[''.txt'']" and w = fresh_world]
    by (rule conjunct1)
  show ?thesis
    unfolding same using exts base by simp
qed

end
